theory Spec2Isabelle
  imports Main "HOL-Library.Word"
begin

unbundle bit_operations_syntax

section \<open>Bytes, byte order and C strings\<close>

type_synonym byte = "8 word"

text \<open>
  The big-endian (wire) value of two consecutive bytes, and the two bytes of a 16-bit
  value, most significant first.
\<close>

definition be16 :: "byte \<Rightarrow> byte \<Rightarrow> 16 word" where
  "be16 a b = push_bit 8 (ucast a) OR ucast b"

definition hi8 :: "16 word \<Rightarrow> byte" where
  "hi8 x = ucast (drop_bit 8 x)"

definition lo8 :: "16 word \<Rightarrow> byte" where
  "lo8 x = ucast x"

text \<open>
  The host's byte order is a parameter \<open>le\<close> (True on a little-endian host).
  \<open>load_u16\<close> and \<open>store_u16\<close> are what reading and writing a \<open>uint16_t\<close> through a
  pointer do on the bytes at that address; \<open>htons\<close>, \<open>ntohs\<close> and \<open>htonl\<close> swap on a
  little-endian host and are the identity on a big-endian one.
\<close>

definition bswap16 :: "16 word \<Rightarrow> 16 word" where
  "bswap16 x = push_bit 8 x OR drop_bit 8 x"

definition htons :: "bool \<Rightarrow> 16 word \<Rightarrow> 16 word" where
  "htons le x = (if le then bswap16 x else x)"

definition ntohs :: "bool \<Rightarrow> 16 word \<Rightarrow> 16 word" where
  "ntohs le x = (if le then bswap16 x else x)"

definition load_u16 :: "bool \<Rightarrow> byte \<Rightarrow> byte \<Rightarrow> 16 word" where
  "load_u16 le a b = (if le then be16 b a else be16 a b)"

definition store_u16 :: "bool \<Rightarrow> 16 word \<Rightarrow> byte list" where
  "store_u16 le x = (if le then [lo8 x, hi8 x] else [hi8 x, lo8 x])"

definition be32 :: "byte \<Rightarrow> byte \<Rightarrow> byte \<Rightarrow> byte \<Rightarrow> 32 word" where
  "be32 a b c d =
     push_bit 24 (ucast a) OR push_bit 16 (ucast b) OR push_bit 8 (ucast c) OR ucast d"

definition be_bytes32 :: "32 word \<Rightarrow> byte list" where
  "be_bytes32 x = [ucast (drop_bit 24 x), ucast (drop_bit 16 x), ucast (drop_bit 8 x), ucast x]"

definition bswap32 :: "32 word \<Rightarrow> 32 word" where
  "bswap32 x =
     be32 (ucast x) (ucast (drop_bit 8 x)) (ucast (drop_bit 16 x)) (ucast (drop_bit 24 x))"

definition htonl :: "bool \<Rightarrow> 32 word \<Rightarrow> 32 word" where
  "htonl le x = (if le then bswap32 x else x)"

definition store_u32 :: "bool \<Rightarrow> 32 word \<Rightarrow> byte list" where
  "store_u32 le x = (if le then rev (be_bytes32 x) else be_bytes32 x)"

text \<open>
  Reads through a pointer are bounded by the object they point into: the array is a
  list, and a read past its end is \<open>None\<close>.
\<close>

definition rd :: "byte list \<Rightarrow> nat \<Rightarrow> byte option" where
  "rd buf i = (if i < length buf then Some (buf ! i) else None)"

definition rds :: "byte list \<Rightarrow> nat \<Rightarrow> nat \<Rightarrow> byte list option" where
  "rds buf off n = (if off + n \<le> length buf then Some (take n (drop off buf)) else None)"

text \<open>
  \<open>size_t\<close> is 64 bits wide. Lengths are kept as natural numbers, and converted to
  64-bit words where the code subtracts them, so that the subtraction wraps around.
\<close>

type_synonym size_t = "64 word"

text \<open>
  A C string is the bytes before the first NUL. \<open>strncpy dst src n\<close> writes exactly \<open>n\<close>
  bytes: the string, cut at \<open>n\<close>, then NUL padding. \<open>strncasecmp\<close> compares at most
  \<open>n\<close> bytes, lower-cased (C locale), and stops after a NUL; it is \<open>None\<close> when it would
  read past the end of either array.
\<close>

definition strlen :: "byte list \<Rightarrow> nat" where
  "strlen s = length (takeWhile (\<lambda>c. c \<noteq> 0) s)"

definition strncpy :: "byte list \<Rightarrow> nat \<Rightarrow> byte list" where
  "strncpy src n = take n (takeWhile (\<lambda>c. c \<noteq> 0) src) @ replicate (n - strlen src) 0"

definition tolower :: "byte \<Rightarrow> byte" where
  "tolower c = (if 0x41 \<le> c \<and> c \<le> 0x5A then c + 0x20 else c)"

fun strncasecmp :: "byte list \<Rightarrow> byte list \<Rightarrow> nat \<Rightarrow> int option" where
  "strncasecmp s1 s2 0 = Some 0"
| "strncasecmp (a # s1) (b # s2) (Suc n) =
     (if tolower a \<noteq> tolower b then Some (uint (tolower a) - uint (tolower b))
      else if a = 0 then Some 0
      else strncasecmp s1 s2 n)"
| "strncasecmp s1 s2 (Suc n) = None"

section \<open>Constants and data of the protocol\<close>

text \<open>
  The header llmnr-packet.h is not among the sources. Its constants are the values the
  wire format fixes: the label limit of 63 bytes, the flag bits QR (bit 15), Opcode
  (bits 11 to 14) and TC (bit 9), type A = 1, type ANY = 255, class IN = 1. The default
  TTL is a parameter \<open>ttl\<close> of the response builder.
\<close>

definition LLMNR_LABEL_MAX_SIZE :: nat where
  "LLMNR_LABEL_MAX_SIZE = 63"

definition LLMNR_F_QR :: "16 word" where
  "LLMNR_F_QR = 0x8000"

definition LLMNR_F_OPCODE :: "16 word" where
  "LLMNR_F_OPCODE = 0x7800"

definition LLMNR_F_TC :: "16 word" where
  "LLMNR_F_TC = 0x0200"

definition LLMNR_QTYPE_A :: "16 word" where
  "LLMNR_QTYPE_A = 1"

definition LLMNR_QTYPE_ANY :: "16 word" where
  "LLMNR_QTYPE_ANY = 255"

definition LLMNR_QCLASS_IN :: "16 word" where
  "LLMNR_QCLASS_IN = 1"

definition LLMNR_TYPE_A :: "16 word" where
  "LLMNR_TYPE_A = 1"

definition LLMNR_CLASS_IN :: "16 word" where
  "LLMNR_CLASS_IN = 1"

type_synonym sa_family = "16 word"

definition AF_UNSPEC :: sa_family where
  "AF_UNSPEC = 0"

definition AF_INET :: sa_family where
  "AF_INET = 2"

definition AF_INET6 :: sa_family where
  "AF_INET6 = 10"

text \<open>
  A \<open>struct sockaddr_storage\<close>: the family tag and, for the view as \<open>sockaddr_in\<close>, the
  four bytes of \<open>sin_addr\<close> as they lie in memory (network byte order).
\<close>

record sockaddr_storage =
  ss_family :: sa_family
  sin_addr :: "byte \<times> byte \<times> byte \<times> byte"

text \<open>
  The header of a message, as \<open>struct llmnr_hdr\<close> overlays it on the first twelve bytes
  of the buffer: six 16-bit fields, each read in host byte order.
\<close>

record llmnr_hdr =
  hdr_id :: "16 word"
  hdr_flags :: "16 word"
  hdr_qdcount :: "16 word"
  hdr_ancount :: "16 word"
  hdr_nscount :: "16 word"
  hdr_arcount :: "16 word"

definition hdr_overlay :: "bool \<Rightarrow> byte list \<Rightarrow> llmnr_hdr" where
  "hdr_overlay le b =
     \<lparr>hdr_id = load_u16 le (b ! 0) (b ! 1), hdr_flags = load_u16 le (b ! 2) (b ! 3),
      hdr_qdcount = load_u16 le (b ! 4) (b ! 5), hdr_ancount = load_u16 le (b ! 6) (b ! 7),
      hdr_nscount = load_u16 le (b ! 8) (b ! 9), hdr_arcount = load_u16 le (b ! 10) (b ! 11)\<rparr>"

definition hdr_store :: "bool \<Rightarrow> llmnr_hdr \<Rightarrow> byte list" where
  "hdr_store le h =
     store_u16 le (hdr_id h) @ store_u16 le (hdr_flags h) @ store_u16 le (hdr_qdcount h)
       @ store_u16 le (hdr_ancount h) @ store_u16 le (hdr_nscount h)
       @ store_u16 le (hdr_arcount h)"

text \<open>
  Modelled from the spec: pkt.h is not among the sources. The outgoing buffer is the
  append-only byte sequence of the spec; \<open>pkt_put\<close> followed by a copy appends the bytes,
  \<open>pkt_put_u16\<close> and \<open>pkt_put_u32\<close> append a value as it lies in host memory.
\<close>

type_synonym pkt = "byte list"

definition pkt_put :: "pkt \<Rightarrow> byte list \<Rightarrow> pkt" where
  "pkt_put p bs = p @ bs"

definition pkt_put_u16 :: "bool \<Rightarrow> pkt \<Rightarrow> 16 word \<Rightarrow> pkt" where
  "pkt_put_u16 le p v = p @ store_u16 le v"

definition pkt_put_u32 :: "bool \<Rightarrow> pkt \<Rightarrow> 32 word \<Rightarrow> pkt" where
  "pkt_put_u32 le p v = p @ store_u32 le v"

text \<open>
  Modelled from the spec: iface.c is not among the sources. The address lookup returns
  the addresses configured on the interface, in their order, filtered to the requested
  family (\<open>AF_UNSPEC\<close> is no filter), at most as many as the caller's array holds. The
  value returned in C is the length of the list, the array filled is the list.
\<close>

definition iface_addr_lookup ::
  "(nat \<Rightarrow> sockaddr_storage list) \<Rightarrow> nat \<Rightarrow> sa_family \<Rightarrow> nat \<Rightarrow> sockaddr_storage list" where
  "iface_addr_lookup ifaces ifindex family addrs_size =
     take addrs_size
       (filter (\<lambda>a. family = AF_UNSPEC \<or> ss_family a = family) (ifaces ifindex))"

section \<open>The hostname store\<close>

text \<open>
  \<open>llmnr_hostname\<close> is a static array of \<open>LLMNR_LABEL_MAX_SIZE + 2\<close> bytes.
  \<open>llmnr_set_hostname\<close> writes all of it: the length octet (the \<open>size_t\<close> result of
  \<open>strlen\<close> converted to a byte), 63 bytes by \<open>strncpy\<close>, and a final NUL.
\<close>

definition llmnr_set_hostname :: "byte list \<Rightarrow> byte list" where
  "llmnr_set_hostname hostname =
     of_nat (strlen hostname) # strncpy hostname LLMNR_LABEL_MAX_SIZE @ [0]"

definition llmnr_init :: "byte list \<Rightarrow> byte list" where
  "llmnr_init hostname = llmnr_set_hostname hostname"

section \<open>The name matcher\<close>

text \<open>
  \<open>hn\<close> is the array \<open>llmnr_hostname\<close>, \<open>query\<close> the receive buffer from the question on.
  The result is \<open>None\<close> when a read leaves its array.
\<close>

definition llmnr_name_matches :: "byte list \<Rightarrow> byte list \<Rightarrow> bool option" where
  "llmnr_name_matches hn query =
     (case rd hn 0 of None \<Rightarrow> None | Some n \<Rightarrow>
      case rd query 0 of None \<Rightarrow> None | Some q0 \<Rightarrow>
        if q0 \<noteq> n then Some False
        else case rd query (1 + unat n) of None \<Rightarrow> None | Some z \<Rightarrow>
          if z \<noteq> 0 then Some False
          else case strncasecmp (drop 1 query) (drop 1 hn) (unat n) of
                 None \<Rightarrow> None
               | Some r \<Rightarrow> Some (r = 0))"

section \<open>The response builder\<close>

text \<open>
  What processing one datagram does on the wire: nothing, or one datagram handed to
  \<open>sendto\<close>; \<open>OutOfBounds\<close> when the code reads outside an array (undefined in C).
\<close>

datatype outcome = NoResponse | Response "byte list" | OutOfBounds

text \<open>
  The loop over the addresses found: \<open>i\<close> is the loop index, the list holds
  \<open>addrs[i]\<close>, \<open>addrs[i+1]\<close>, ... up to \<open>addrs[n-1]\<close>. An address that is not
  \<open>AF_INET\<close> is skipped by \<open>continue\<close>. Copying the name reads
  \<open>llmnr_hostname[0] + 2\<close> bytes of the hostname array; with a length octet above 63
  that is more than the 65 bytes of the array, whether \<open>char\<close> is signed or not.
\<close>

definition rr_name :: "bool \<Rightarrow> byte list \<Rightarrow> nat \<Rightarrow> nat \<Rightarrow> pkt \<Rightarrow> pkt option" where
  "rr_name le hn query_len i p =
     (if i = 0 then
        (case rd hn 0 of None \<Rightarrow> None | Some n \<Rightarrow>
         case rds hn 0 (unat n + 2) of None \<Rightarrow> None | Some bs \<Rightarrow> Some (pkt_put p bs))
      else
        (let ptr = (0xC000 OR of_nat (12 + query_len) :: 16 word)
         in Some (pkt_put_u16 le p (ntohs le ptr))))"

definition rr_fixed :: "bool \<Rightarrow> 32 word \<Rightarrow> sockaddr_storage \<Rightarrow> pkt \<Rightarrow> pkt" where
  "rr_fixed le ttl a p =
     (let p = pkt_put_u16 le p (htons le LLMNR_TYPE_A);
          p = pkt_put_u16 le p (htons le LLMNR_CLASS_IN);
          p = pkt_put_u32 le p (htonl le ttl);
          p = pkt_put_u16 le p (htons le 4)
      in case sin_addr a of (b0, b1, b2, b3) \<Rightarrow> pkt_put p [b0, b1, b2, b3])"

fun rr_loop ::
  "bool \<Rightarrow> 32 word \<Rightarrow> byte list \<Rightarrow> nat \<Rightarrow> nat \<Rightarrow> sockaddr_storage list \<Rightarrow> pkt \<Rightarrow> pkt option" where
  "rr_loop le ttl hn query_len i [] p = Some p"
| "rr_loop le ttl hn query_len i (a # as) p =
     (if ss_family a = AF_INET then
        (case rr_name le hn query_len i p of
           None \<Rightarrow> None
         | Some p1 \<Rightarrow> rr_loop le ttl hn query_len (Suc i) as (rr_fixed le ttl a p1))
      else rr_loop le ttl hn query_len (Suc i) as p)"

definition llmnr_respond ::
  "bool \<Rightarrow> 32 word \<Rightarrow> byte list \<Rightarrow> (nat \<Rightarrow> sockaddr_storage list) \<Rightarrow> nat \<Rightarrow> llmnr_hdr
     \<Rightarrow> byte list \<Rightarrow> nat \<Rightarrow> outcome" where
  "llmnr_respond le ttl hn ifaces ifindex hdr query query_len =
     (case rd query 0 of None \<Rightarrow> OutOfBounds | Some name_len \<Rightarrow>
      if (of_nat query_len :: size_t) - ucast name_len - 2 < 4 then NoResponse
      else case rds query (unat name_len + 2) 4 of None \<Rightarrow> OutOfBounds | Some qq \<Rightarrow>
        let qtype = ntohs le (load_u16 le (qq ! 0) (qq ! 1));
            qclass = ntohs le (load_u16 le (qq ! 2) (qq ! 3))
        in if qclass \<noteq> LLMNR_QCLASS_IN then NoResponse
           else if qtype \<noteq> LLMNR_QTYPE_A \<and> qtype \<noteq> LLMNR_QTYPE_ANY then NoResponse
           else
             let family = (if qtype = LLMNR_QTYPE_A then AF_INET else AF_UNSPEC);
                 addrs = iface_addr_lookup ifaces ifindex family 16;
                 n = length addrs
             in if n = 0 then NoResponse
                else
                  let r = \<lparr>hdr_id = hdr_id hdr, hdr_flags = htons le LLMNR_F_QR,
                           hdr_qdcount = hdr_qdcount hdr, hdr_ancount = htons le (of_nat n),
                           hdr_nscount = 0, hdr_arcount = 0\<rparr>;
                      p = pkt_put [] (hdr_store le r)
                  in case rds query 0 query_len of None \<Rightarrow> OutOfBounds | Some q \<Rightarrow>
                     (case rr_loop le ttl hn query_len 0 addrs (pkt_put p q) of
                        None \<Rightarrow> OutOfBounds
                      | Some p' \<Rightarrow> Response p'))"

section \<open>The query validator\<close>

definition llmnr_packet_process ::
  "bool \<Rightarrow> 32 word \<Rightarrow> byte list \<Rightarrow> (nat \<Rightarrow> sockaddr_storage list) \<Rightarrow> nat
     \<Rightarrow> byte list \<Rightarrow> nat \<Rightarrow> outcome" where
  "llmnr_packet_process le ttl hn ifaces ifindex pktbuf len =
     (if len < 12 then NoResponse
      else case rds pktbuf 0 12 of None \<Rightarrow> OutOfBounds | Some hb \<Rightarrow>
        let hdr = hdr_overlay le hb;
            flags = ntohs le (hdr_flags hdr);
            qdcount = ntohs le (hdr_qdcount hdr)
        in if flags AND (LLMNR_F_QR OR LLMNR_F_OPCODE OR LLMNR_F_TC) \<noteq> 0
              \<or> qdcount \<noteq> 1 \<or> hdr_ancount hdr \<noteq> 0 \<or> hdr_nscount hdr \<noteq> 0
           then NoResponse
           else
             let query = drop 12 pktbuf;
                 query_len = len - 12
             in case rd query 0 of None \<Rightarrow> OutOfBounds | Some name_len \<Rightarrow>
                if name_len = 0 \<or> unat name_len \<ge> query_len
                   \<or> unat name_len > LLMNR_LABEL_MAX_SIZE
                then NoResponse
                else case rd query (1 + unat name_len) of
                       None \<Rightarrow> OutOfBounds
                     | Some z \<Rightarrow>
                       if z \<noteq> 0 then NoResponse
                       else case llmnr_name_matches hn query of
                              None \<Rightarrow> OutOfBounds
                            | Some m \<Rightarrow>
                              if m then llmnr_respond le ttl hn ifaces ifindex hdr query query_len
                              else NoResponse)"

section \<open>The receiver\<close>

text \<open>
  \<open>llmnr_recv\<close> receives into a 2048-byte array on its stack, which it does not
  initialise: \<open>recvmsg\<close> overwrites the first \<open>recvlen\<close> bytes with the datagram (cut at
  2048) and leaves the rest as it was (\<open>stale\<close>). A datagram whose control data names
  no interface leaves \<open>ifindex\<close> at -1 and is not processed.
\<close>

definition PKTBUF_SIZE :: nat where
  "PKTBUF_SIZE = 2048"

datatype recvmsg_result = RecvFailed | Received "byte list" int

definition pktbuf_after :: "byte list \<Rightarrow> byte list \<Rightarrow> byte list" where
  "pktbuf_after stale payload =
     take PKTBUF_SIZE payload @ drop (length (take PKTBUF_SIZE payload)) stale"

definition llmnr_recv ::
  "bool \<Rightarrow> 32 word \<Rightarrow> byte list \<Rightarrow> (nat \<Rightarrow> sockaddr_storage list) \<Rightarrow> byte list
     \<Rightarrow> recvmsg_result \<Rightarrow> outcome" where
  "llmnr_recv le ttl hn ifaces stale res =
     (case res of
        RecvFailed \<Rightarrow> NoResponse
      | Received payload ifindex \<Rightarrow>
          if ifindex \<ge> 0 then
            llmnr_packet_process le ttl hn ifaces (nat ifindex)
              (pktbuf_after stale payload) (length (take PKTBUF_SIZE payload))
          else NoResponse)"

section \<open>The wire format, for stating properties\<close>

text \<open>
  The 16-bit fields of a message header, read from the wire (big-endian) at their
  offsets: ID, FLAGS, QDCOUNT, ANCOUNT, NSCOUNT, ARCOUNT.
\<close>

definition msg_id :: "byte list \<Rightarrow> 16 word" where
  "msg_id m = be16 (m ! 0) (m ! 1)"

definition msg_flags :: "byte list \<Rightarrow> 16 word" where
  "msg_flags m = be16 (m ! 2) (m ! 3)"

definition msg_qdcount :: "byte list \<Rightarrow> 16 word" where
  "msg_qdcount m = be16 (m ! 4) (m ! 5)"

definition msg_ancount :: "byte list \<Rightarrow> 16 word" where
  "msg_ancount m = be16 (m ! 6) (m ! 7)"

definition msg_nscount :: "byte list \<Rightarrow> 16 word" where
  "msg_nscount m = be16 (m ! 8) (m ! 9)"

definition msg_arcount :: "byte list \<Rightarrow> 16 word" where
  "msg_arcount m = be16 (m ! 10) (m ! 11)"

text \<open>
  QTYPE and QCLASS of the question, read from the wire right after the zero octet that
  ends a single-label QNAME.
\<close>

definition msg_qtype :: "byte list \<Rightarrow> 16 word" where
  "msg_qtype m = be16 (m ! (14 + unat (m ! 12))) (m ! (15 + unat (m ! 12)))"

definition msg_qclass :: "byte list \<Rightarrow> 16 word" where
  "msg_qclass m = be16 (m ! (16 + unat (m ! 12))) (m ! (17 + unat (m ! 12)))"

text \<open>
  The part of a resource record after its NAME, on the wire: TYPE = 1, CLASS = 1, the
  TTL, RDLENGTH = 4 and the four address bytes. \<open>name_pointer\<close> is the 16-bit value
  the loop writes as the NAME of a record that is not the first.
\<close>

definition rr_wire_tail :: "32 word \<Rightarrow> sockaddr_storage \<Rightarrow> byte list" where
  "rr_wire_tail ttl a =
     [0, 1, 0, 1] @ be_bytes32 ttl @ [0, 4]
       @ (case sin_addr a of (b0, b1, b2, b3) \<Rightarrow> [b0, b1, b2, b3])"

definition name_pointer :: "nat \<Rightarrow> 16 word" where
  "name_pointer query_len = 0xC000 OR of_nat (12 + query_len)"


text \<open>
  A datagram that passes every check of the validator (the list of section 4.3 of the
  specification, negated): long enough for a header, none of the QR, Opcode and TC bits
  set, QDCOUNT 1, ANCOUNT and NSCOUNT 0, a QNAME length octet that is not 0, less than
  the length of the payload after the header and at most 63, and a zero octet right
  after the name bytes.
\<close>

definition query_validated :: "byte list \<Rightarrow> nat \<Rightarrow> bool" where
  "query_validated pktbuf len \<longleftrightarrow>
     12 \<le> len
     \<and> msg_flags pktbuf AND LLMNR_F_QR = 0
     \<and> msg_flags pktbuf AND LLMNR_F_OPCODE = 0
     \<and> msg_flags pktbuf AND LLMNR_F_TC = 0
     \<and> msg_qdcount pktbuf = 1 \<and> msg_ancount pktbuf = 0 \<and> msg_nscount pktbuf = 0
     \<and> pktbuf ! 12 \<noteq> 0 \<and> unat (pktbuf ! 12) < len - 12 \<and> unat (pktbuf ! 12) \<le> 63
     \<and> pktbuf ! (13 + unat (pktbuf ! 12)) = 0"

section \<open>Example data\<close>

text \<open>
  The host name "myhost"; a query for "MYHOST", type ANY, class IN, with transaction
  id 0x1234; the IPv4 address 192.0.2.5 and an IPv6 address of the interface.
\<close>

definition ex_myhost :: "byte list" where
  "ex_myhost = [0x6D, 0x79, 0x68, 0x6F, 0x73, 0x74]"

definition ex_query :: "byte list" where
  "ex_query = [0x12, 0x34, 0, 0, 0, 1, 0, 0, 0, 0, 0, 0,
               6, 0x4D, 0x59, 0x48, 0x4F, 0x53, 0x54, 0, 0, 0xFF, 0, 1]"

definition ex_addr4 :: sockaddr_storage where
  "ex_addr4 = \<lparr>ss_family = AF_INET, sin_addr = (192, 0, 2, 5)\<rparr>"

definition ex_addr6 :: sockaddr_storage where
  "ex_addr6 = \<lparr>ss_family = AF_INET6, sin_addr = (0, 0, 0, 0)\<rparr>"

definition ex_response :: "byte list" where
  "ex_response = [0x12, 0x34, 0x80, 0, 0, 1, 0, 1, 0, 0, 0, 0,
                  6, 0x4D, 0x59, 0x48, 0x4F, 0x53, 0x54, 0, 0, 0xFF, 0, 1,
                  6, 0x6D, 0x79, 0x68, 0x6F, 0x73, 0x74, 0,
                  0, 1, 0, 1, 0, 0, 0, 30, 0, 4, 192, 0, 2, 5]"

definition ex_pktbuf :: "byte list" where
  "ex_pktbuf = ex_query @ replicate 2024 0"

text \<open>
  A second IPv4 address; the receive buffer holding the query followed by one more
  payload byte; the query cut after the name bytes (19 bytes, without the zero octet
  that ends the QNAME); the same query with type A and transaction id 0x1233; and the
  responses the code builds in the scenarios below.
\<close>

definition ex_addr4b :: sockaddr_storage where
  "ex_addr4b = \<lparr>ss_family = AF_INET, sin_addr = (192, 0, 2, 6)\<rparr>"

definition ex_pktbuf_pad :: "byte list" where
  "ex_pktbuf_pad = ex_query @ 0xAA # replicate 2023 0"

definition ex_response_pad :: "byte list" where
  "ex_response_pad = [0x12, 0x34, 0x80, 0, 0, 1, 0, 2, 0, 0, 0, 0,
                  6, 0x4D, 0x59, 0x48, 0x4F, 0x53, 0x54, 0, 0, 0xFF, 0, 1, 0xAA,
                  6, 0x6D, 0x79, 0x68, 0x6F, 0x73, 0x74, 0,
                  0, 1, 0, 1, 0, 0, 0, 30, 0, 4, 192, 0, 2, 5,
                  0xC0, 0x19,
                  0, 1, 0, 1, 0, 0, 0, 30, 0, 4, 192, 0, 2, 6]"

definition ex_truncated :: "byte list" where
  "ex_truncated = take 19 ex_query"

definition ex_response_truncated :: "byte list" where
  "ex_response_truncated = [0x12, 0x34, 0x80, 0, 0, 1, 0, 1, 0, 0, 0, 0,
                  6, 0x4D, 0x59, 0x48, 0x4F, 0x53, 0x54,
                  6, 0x6D, 0x79, 0x68, 0x6F, 0x73, 0x74, 0,
                  0, 1, 0, 1, 0, 0, 0, 30, 0, 4, 192, 0, 2, 5]"

definition ex_response3 :: "byte list" where
  "ex_response3 = [0x12, 0x34, 0x80, 0, 0, 1, 0, 3, 0, 0, 0, 0,
                  6, 0x4D, 0x59, 0x48, 0x4F, 0x53, 0x54, 0, 0, 0xFF, 0, 1,
                  6, 0x6D, 0x79, 0x68, 0x6F, 0x73, 0x74, 0,
                  0, 1, 0, 1, 0, 0, 0, 30, 0, 4, 192, 0, 2, 5,
                  0xC0, 0x18,
                  0, 1, 0, 1, 0, 0, 0, 30, 0, 4, 192, 0, 2, 6]"

definition ex_query_a :: "byte list" where
  "ex_query_a = [0x12, 0x33, 0, 0, 0, 1, 0, 0, 0, 0, 0, 0,
                 6, 0x4D, 0x59, 0x48, 0x4F, 0x53, 0x54, 0, 0, 1, 0, 1]"

definition ex_response_no_rr :: "byte list" where
  "ex_response_no_rr = [0x12, 0x34, 0x80, 0, 0, 1, 0, 1, 0, 0, 0, 0,
                        6, 0x4D, 0x59, 0x48, 0x4F, 0x53, 0x54, 0, 0, 0xFF, 0, 1]"

section \<open>Byte order\<close>

lemma hi8_be16: "hi8 (be16 a b) = a"
  unfolding hi8_def be16_def
  by (rule bit_word_eqI) (auto simp: bit_simps dest: bit_imp_le_length)

lemma lo8_be16: "lo8 (be16 a b) = b"
  unfolding lo8_def be16_def
  by (rule bit_word_eqI) (auto simp: bit_simps dest: bit_imp_le_length)

lemma bswap16_be16: "bswap16 (be16 a b) = be16 b a"
  unfolding bswap16_def be16_def
  by (rule bit_word_eqI) (auto simp: bit_simps dest: bit_imp_le_length)

lemma hi8_bswap16: "hi8 (bswap16 x) = lo8 x"
  unfolding hi8_def lo8_def bswap16_def
  by (rule bit_word_eqI) (auto simp: bit_simps dest: bit_imp_le_length)

lemma lo8_bswap16: "lo8 (bswap16 x) = hi8 x"
  unfolding hi8_def lo8_def bswap16_def
  by (rule bit_word_eqI) (auto simp: bit_simps dest: bit_imp_le_length)

lemma ntohs_load_u16: "ntohs le (load_u16 le a b) = be16 a b"
  by (simp add: ntohs_def load_u16_def bswap16_be16)

lemma store_u16_htons: "store_u16 le (htons le x) = [hi8 x, lo8 x]"
  by (simp add: store_u16_def htons_def hi8_bswap16 lo8_bswap16)

lemma store_u16_ntohs: "store_u16 le (ntohs le x) = [hi8 x, lo8 x]"
  by (simp add: store_u16_def ntohs_def hi8_bswap16 lo8_bswap16)

lemma store_u16_load_u16: "store_u16 le (load_u16 le a b) = [a, b]"
  by (simp add: store_u16_def load_u16_def hi8_be16 lo8_be16)

lemma store_u16_zero: "store_u16 le 0 = [0, 0]"
  by (simp add: store_u16_def hi8_def lo8_def)

lemma be16_eq_0: "be16 a b = 0 \<longleftrightarrow> a = 0 \<and> b = 0"
proof
  assume h: "be16 a b = 0"
  have "a = hi8 (be16 a b)" "b = lo8 (be16 a b)" by (simp_all add: hi8_be16 lo8_be16)
  then show "a = 0 \<and> b = 0" unfolding h by (simp add: hi8_def lo8_def)
next
  assume "a = 0 \<and> b = 0" then show "be16 a b = 0" by (simp add: be16_def)
qed

lemma load_u16_eq_0: "load_u16 le a b = 0 \<longleftrightarrow> a = 0 \<and> b = 0"
  by (auto simp: load_u16_def be16_eq_0)

lemma be_bytes32_be32: "be_bytes32 (be32 a b c d) = [a, b, c, d]"
  unfolding be_bytes32_def be32_def list.inject
  by (intro conjI refl; rule bit_word_eqI; auto simp: bit_simps dest: bit_imp_le_length)

lemma store_u32_htonl: "store_u32 le (htonl le x) = be_bytes32 x"
  by (simp add: store_u32_def htonl_def bswap32_def be_bytes32_be32) (simp add: be_bytes32_def)

lemma and_or_eq_0: "(x :: 'a::len word) AND (a OR b) = 0 \<longleftrightarrow> x AND a = 0 \<and> x AND b = 0"
  by (simp add: bit.conj_disj_distrib or_eq_0_iff)


section \<open>The answer records and the layout of a response\<close>

lemma rr_fixed_eq: "rr_fixed le ttl a p = p @ rr_wire_tail ttl a"
  by (simp add: rr_fixed_def rr_wire_tail_def pkt_put_def pkt_put_u16_def pkt_put_u32_def
      store_u16_htons store_u32_htonl LLMNR_TYPE_A_def LLMNR_CLASS_IN_def hi8_def lo8_def
      split: prod.splits)

lemma length_rr_wire_tail: "length (rr_wire_tail ttl a) = 14"
  by (simp add: rr_wire_tail_def be_bytes32_def split: prod.splits)

lemma rr_name_Suc:
  "rr_name le hn query_len (Suc i) p =
     Some (p @ [hi8 (name_pointer query_len), lo8 (name_pointer query_len)])"
  by (simp add: rr_name_def pkt_put_u16_def store_u16_ntohs name_pointer_def Let_def)

lemma rr_name_0:
  "rr_name le hn query_len 0 p =
     (if hn \<noteq> [] \<and> unat (hn ! 0) + 2 \<le> length hn
      then Some (p @ take (unat (hn ! 0) + 2) hn) else None)"
  by (auto simp: rr_name_def rd_def rds_def pkt_put_def)

lemma rr_name_prefix: "rr_name le hn query_len i p = Some p1 \<Longrightarrow> \<exists>s. p1 = p @ s"
  by (cases i) (auto simp: rr_name_0 rr_name_Suc split: if_splits)

lemma rr_loop_prefix:
  "rr_loop le ttl hn query_len i addrs p = Some r \<Longrightarrow> \<exists>s. r = p @ s"
proof (induction addrs arbitrary: i p)
  case Nil
  then show ?case by simp
next
  case (Cons a as)
  show ?case
  proof (cases "ss_family a = AF_INET")
    case True
    with Cons.prems obtain p1 where p1: "rr_name le hn query_len i p = Some p1"
      and r: "rr_loop le ttl hn query_len (Suc i) as (rr_fixed le ttl a p1) = Some r"
      by (auto split: option.splits)
    from rr_name_prefix [OF p1] obtain s1 where "p1 = p @ s1" by blast
    moreover from Cons.IH [OF r] obtain s2 where "r = rr_fixed le ttl a p1 @ s2" by blast
    ultimately show ?thesis by (simp add: rr_fixed_eq)
  next
    case False
    with Cons.prems have "rr_loop le ttl hn query_len (Suc i) as p = Some r" by simp
    from Cons.IH [OF this] show ?thesis .
  qed
qed

lemma respond_ResponseD:
  assumes "llmnr_respond le ttl hn ifaces ifindex hdr query query_len = Response r"
  obtains family where "family = AF_INET \<or> family = AF_UNSPEC"
    and "iface_addr_lookup ifaces ifindex family 16 \<noteq> []"
    and "query_len \<le> length query"
    and "rr_loop le ttl hn query_len 0 (iface_addr_lookup ifaces ifindex family 16)
           (hdr_store le \<lparr>hdr_id = hdr_id hdr, hdr_flags = htons le LLMNR_F_QR,
              hdr_qdcount = hdr_qdcount hdr,
              hdr_ancount = htons le (of_nat (length (iface_addr_lookup ifaces ifindex family 16))),
              hdr_nscount = 0, hdr_arcount = 0\<rparr> @ take query_len query) = Some r"
  using assms
  by (auto simp: llmnr_respond_def Let_def rd_def rds_def pkt_put_def
      split: option.splits if_splits)

lemma process_ResponseD:
  assumes "llmnr_packet_process le ttl hn ifaces ifindex pktbuf len = Response r"
  shows "12 \<le> len" and "12 < length pktbuf"
    and "be16 (pktbuf ! 2) (pktbuf ! 3) AND (LLMNR_F_QR OR LLMNR_F_OPCODE OR LLMNR_F_TC) = 0"
    and "be16 (pktbuf ! 4) (pktbuf ! 5) = 1"
    and "pktbuf ! 6 = 0" and "pktbuf ! 7 = 0" and "pktbuf ! 8 = 0" and "pktbuf ! 9 = 0"
    and "pktbuf ! 12 \<noteq> 0" and "unat (pktbuf ! 12) < len - 12"
    and "unat (pktbuf ! 12) \<le> LLMNR_LABEL_MAX_SIZE"
    and "13 + unat (pktbuf ! 12) < length pktbuf"
    and "pktbuf ! (13 + unat (pktbuf ! 12)) = 0"
    and "llmnr_name_matches hn (drop 12 pktbuf) = Some True"
    and "llmnr_respond le ttl hn ifaces ifindex (hdr_overlay le (take 12 pktbuf))
           (drop 12 pktbuf) (len - 12) = Response r"
  using assms
  by (auto simp: llmnr_packet_process_def Let_def rd_def rds_def hdr_overlay_def
      ntohs_load_u16 load_u16_eq_0 add.commute
      split: option.splits if_splits)

lemma rr_loop_append:
  "rr_loop le ttl hn query_len i addrs p =
     map_option ((@) p) (rr_loop le ttl hn query_len i addrs [])"
proof (induction addrs arbitrary: i p)
  case Nil
  then show ?case by simp
next
  case (Cons a as)
  have nm: "rr_name le hn query_len i p = map_option ((@) p) (rr_name le hn query_len i [])"
    by (cases i) (simp_all add: rr_name_0 rr_name_Suc)
  show ?case
  proof (cases "ss_family a = AF_INET")
    case True
    show ?thesis
    proof (cases "rr_name le hn query_len i []")
      case None
      with True nm show ?thesis by simp
    next
      case (Some s1)
      with nm have "rr_name le hn query_len i p = Some (p @ s1)" by simp
      with True Some show ?thesis
        using Cons.IH [of "Suc i" "rr_fixed le ttl a (p @ s1)"]
          Cons.IH [of "Suc i" "rr_fixed le ttl a s1"]
        by (simp add: rr_fixed_eq option.map_comp comp_def)
    qed
  next
    case False
    then show ?thesis using Cons.IH [of "Suc i" p] by simp
  qed
qed

lemma hdr_store_response:
  "hdr_store le \<lparr>hdr_id = hdr_id (hdr_overlay le b), hdr_flags = htons le LLMNR_F_QR,
      hdr_qdcount = hdr_qdcount (hdr_overlay le b), hdr_ancount = htons le n,
      hdr_nscount = 0, hdr_arcount = 0\<rparr>
   = [b ! 0, b ! 1, 0x80, 0, b ! 4, b ! 5, hi8 n, lo8 n, 0, 0, 0, 0]"
  by (simp add: hdr_store_def hdr_overlay_def store_u16_load_u16 store_u16_htons
      store_u16_zero LLMNR_F_QR_def hi8_def lo8_def)

lemma process_Response_layout:
  assumes "llmnr_packet_process le ttl hn ifaces ifindex pktbuf len = Response r"
  obtains family s where "family = AF_INET \<or> family = AF_UNSPEC"
    and "iface_addr_lookup ifaces ifindex family 16 \<noteq> []"
    and "len \<le> length pktbuf"
    and "rr_loop le ttl hn (len - 12) 0 (iface_addr_lookup ifaces ifindex family 16) [] = Some s"
    and "r = [pktbuf ! 0, pktbuf ! 1, 0x80, 0, pktbuf ! 4, pktbuf ! 5,
              hi8 (of_nat (length (iface_addr_lookup ifaces ifindex family 16))),
              lo8 (of_nat (length (iface_addr_lookup ifaces ifindex family 16))), 0, 0, 0, 0]
             @ take (len - 12) (drop 12 pktbuf) @ s"
proof -
  note d = process_ResponseD [OF assms]
  from d(15) obtain family where f: "family = AF_INET \<or> family = AF_UNSPEC"
    and ne: "iface_addr_lookup ifaces ifindex family 16 \<noteq> []"
    and ql: "len - 12 \<le> length (drop 12 pktbuf)"
    and lp: "rr_loop le ttl hn (len - 12) 0 (iface_addr_lookup ifaces ifindex family 16)
           (hdr_store le \<lparr>hdr_id = hdr_id (hdr_overlay le (take 12 pktbuf)), hdr_flags = htons le LLMNR_F_QR,
              hdr_qdcount = hdr_qdcount (hdr_overlay le (take 12 pktbuf)),
              hdr_ancount = htons le (of_nat (length (iface_addr_lookup ifaces ifindex family 16))),
              hdr_nscount = 0, hdr_arcount = 0\<rparr> @ take (len - 12) (drop 12 pktbuf)) = Some r"
    by (rule respond_ResponseD)
  from lp obtain s where s: "rr_loop le ttl hn (len - 12) 0 (iface_addr_lookup ifaces ifindex family 16) [] = Some s"
    and r: "r = hdr_store le \<lparr>hdr_id = hdr_id (hdr_overlay le (take 12 pktbuf)), hdr_flags = htons le LLMNR_F_QR,
              hdr_qdcount = hdr_qdcount (hdr_overlay le (take 12 pktbuf)),
              hdr_ancount = htons le (of_nat (length (iface_addr_lookup ifaces ifindex family 16))),
              hdr_nscount = 0, hdr_arcount = 0\<rparr> @ take (len - 12) (drop 12 pktbuf) @ s"
    by (subst (asm) rr_loop_append) auto
  from d(1,2) ql have "len \<le> length pktbuf" by simp
  moreover from d(2) have "take 12 pktbuf ! 0 = pktbuf ! 0" "take 12 pktbuf ! 1 = pktbuf ! 1"
    "take 12 pktbuf ! 4 = pktbuf ! 4" "take 12 pktbuf ! 5 = pktbuf ! 5" by simp_all
  ultimately show thesis using f ne s r
    by (intro that [of family s]) (simp_all add: hdr_store_response)
qed


lemma rr_loop_skip_Suc:
  "rr_loop le ttl hn query_len (Suc i) as p =
     Some (p @ concat (map (\<lambda>a. [hi8 (name_pointer query_len), lo8 (name_pointer query_len)]
                                 @ rr_wire_tail ttl a)
                         (filter (\<lambda>a. ss_family a = AF_INET) as)))"
  by (induction as arbitrary: i p) (simp_all add: rr_name_Suc rr_fixed_eq)

lemma rr_loop_first:
  assumes "ss_family a = AF_INET"
    and "rr_loop le ttl hn query_len 0 (a # as) p = Some s"
  shows "s = p @ take (unat (hn ! 0) + 2) hn @ rr_wire_tail ttl a
               @ concat (map (\<lambda>a. [hi8 (name_pointer query_len), lo8 (name_pointer query_len)]
                                     @ rr_wire_tail ttl a)
                             (filter (\<lambda>a. ss_family a = AF_INET) as))"
    and "unat (hn ! 0) + 2 \<le> length hn"
  using assms
  by (auto simp: rr_name_0 rr_fixed_eq rr_loop_skip_Suc split: if_splits)

lemma filter_nth_count:
  assumes "m < length xs" and "P (xs ! m)"
  shows "length (filter P (take m xs)) < length (filter P xs)"
    and "filter P xs ! length (filter P (take m xs)) = xs ! m"
proof -
  from assms(1) have "xs = take m xs @ xs ! m # drop (Suc m) xs"
    by (rule id_take_nth_drop)
  then have f: "filter P xs = filter P (take m xs) @ xs ! m # filter P (drop (Suc m) xs)"
    using assms(2) by (metis filter.simps(2) filter_append)
  from f have "length (filter P xs)
      = length (filter P (take m xs) @ xs ! m # filter P (drop (Suc m) xs))"
    by (rule arg_cong [where f = length])
  then show "length (filter P (take m xs)) < length (filter P xs)"
    by simp
  show "filter P xs ! length (filter P (take m xs)) = xs ! m"
    by (subst f) (simp only: nth_append_length)
qed

lemma length_hdr_store: "length (hdr_store le h) = 12"
  by (simp add: hdr_store_def store_u16_def)

lemma drop_concat_fixed:
  assumes "\<forall>x \<in> set xs. length (f x) = m"
  shows "drop (m * j) (concat (map f xs)) = concat (map f (drop j xs))"
  using assms
proof (induction xs arbitrary: j)
  case Nil
  then show ?case by simp
next
  case (Cons x xs)
  then show ?case by (cases j) simp_all
qed

lemma take_concat_fixed:
  assumes "\<forall>x \<in> set xs. length (f x) = m" and "j < length xs"
  shows "take m (drop (m * j) (concat (map f xs))) = f (xs ! j)"
proof -
  from assms(2) obtain y ys where d: "drop j xs = y # ys" and y: "y = xs ! j"
    by (metis Cons_nth_drop_Suc)
  from assms have "length (f y) = m" unfolding y by simp
  then show ?thesis
    unfolding drop_concat_fixed [OF assms(1)] d y [symmetric] by simp
qed

lemma name_matches_TrueD:
  assumes "llmnr_name_matches hn query = Some True"
  shows "hn \<noteq> []" and "query \<noteq> []" and "query ! 0 = hn ! 0"
  using assms
  by (auto simp: llmnr_name_matches_def rd_def split: option.splits if_splits)

lemma be16_hi_lo: "be16 (hi8 x) (lo8 x) = x"
  unfolding hi8_def lo8_def be16_def
  by (rule bit_word_eqI) (auto simp: bit_simps dest: bit_imp_le_length)

lemma drop_length_plus: "drop (length xs + n) (xs @ ys) = drop n ys"
  by simp


lemma mask14: "(0x3FFF :: 16 word) = mask 14" by (simp add: mask_eq_exp_minus_1)

lemma ptr_low:
  assumes "m < 2 ^ 14"
  shows "unat ((0xC000 OR of_nat m :: 16 word) AND 0x3FFF) = m"
proof -
  have "(0xC000 OR of_nat m :: 16 word) AND mask 14 = take_bit 14 (0xC000 OR of_nat m :: 16 word)"
    by (simp add: take_bit_eq_mask)
  also have "\<dots> = take_bit 14 (0xC000 :: 16 word) OR take_bit 14 (of_nat m :: 16 word)"
    by (simp add: take_bit_or del: take_bit_of_nat)
  also have "take_bit 14 (0xC000 :: 16 word) = 0" by simp
  also have "take_bit 14 (of_nat m :: 16 word) = of_nat m"
    using assms by (simp add: take_bit_of_nat take_bit_nat_eq_self)
  finally have "(0xC000 OR of_nat m :: 16 word) AND 0x3FFF = of_nat m" by (simp add: mask14)
  moreover have "unat (of_nat m :: 16 word) = m" using assms by (simp add: unat_of_nat)
  ultimately show ?thesis by simp
qed

lemma ptr_top: "hi8 (0xC000 OR w) AND 0xC0 = 0xC0"
proof -
  have "hi8 (0xC000 OR w) = 0xC0 OR hi8 w"
    unfolding hi8_def by (simp add: drop_bit_or unsigned_or_eq) 
  then show ?thesis by (simp add: bit.conj_disj_distrib2 and.commute)
qed

section \<open>The validator and the name matcher\<close>

lemma flags_mask_eq_0:
  "x AND (LLMNR_F_QR OR LLMNR_F_OPCODE OR LLMNR_F_TC) = 0 \<longleftrightarrow>
     x AND LLMNR_F_QR = 0 \<and> x AND LLMNR_F_OPCODE = 0 \<and> x AND LLMNR_F_TC = 0"
  by (simp add: bit.conj_disj_distrib or_eq_0_iff)

lemma process_drop_not_Response:
  assumes "len < 12
      \<or> msg_flags pktbuf AND LLMNR_F_QR \<noteq> 0
      \<or> msg_flags pktbuf AND LLMNR_F_OPCODE \<noteq> 0
      \<or> msg_flags pktbuf AND LLMNR_F_TC \<noteq> 0
      \<or> msg_qdcount pktbuf \<noteq> 1
      \<or> msg_ancount pktbuf \<noteq> 0 \<or> msg_nscount pktbuf \<noteq> 0
      \<or> pktbuf ! 12 = 0 \<or> unat (pktbuf ! 12) \<ge> len - 12 \<or> unat (pktbuf ! 12) > 63
      \<or> pktbuf ! (13 + unat (pktbuf ! 12)) \<noteq> 0"
  shows "llmnr_packet_process le ttl hn ifaces ifindex pktbuf len \<noteq> Response r"
proof
  assume "llmnr_packet_process le ttl hn ifaces ifindex pktbuf len = Response r"
  note d = process_ResponseD [OF this]
  from d(3) have "msg_flags pktbuf AND LLMNR_F_QR = 0" "msg_flags pktbuf AND LLMNR_F_OPCODE = 0"
    "msg_flags pktbuf AND LLMNR_F_TC = 0"
    by (simp_all add: flags_mask_eq_0 msg_flags_def)
  moreover from d(5-8) have "msg_ancount pktbuf = 0" "msg_nscount pktbuf = 0"
    by (simp_all add: msg_ancount_def msg_nscount_def be16_eq_0)
  ultimately show False
    using assms d(1,4,9-13) by (auto simp: msg_qdcount_def LLMNR_LABEL_MAX_SIZE_def)
qed

lemma process_drop_NoResponse:
  assumes "length pktbuf = PKTBUF_SIZE"
    and "len < 12
      \<or> msg_flags pktbuf AND LLMNR_F_QR \<noteq> 0
      \<or> msg_flags pktbuf AND LLMNR_F_OPCODE \<noteq> 0
      \<or> msg_flags pktbuf AND LLMNR_F_TC \<noteq> 0
      \<or> msg_qdcount pktbuf \<noteq> 1
      \<or> msg_ancount pktbuf \<noteq> 0 \<or> msg_nscount pktbuf \<noteq> 0
      \<or> pktbuf ! 12 = 0 \<or> unat (pktbuf ! 12) \<ge> len - 12 \<or> unat (pktbuf ! 12) > 63
      \<or> pktbuf ! (13 + unat (pktbuf ! 12)) \<noteq> 0"
  shows "llmnr_packet_process le ttl hn ifaces ifindex pktbuf len = NoResponse"
  using assms
  by (auto simp: llmnr_packet_process_def Let_def rd_def rds_def hdr_overlay_def
      ntohs_load_u16 load_u16_eq_0 flags_mask_eq_0 msg_flags_def msg_qdcount_def
      msg_ancount_def msg_nscount_def be16_eq_0 PKTBUF_SIZE_def LLMNR_LABEL_MAX_SIZE_def
      add.commute
      split: option.splits if_splits)

lemma tolower_eq_0: "tolower c = 0 \<longleftrightarrow> c = 0"
proof (cases "0x41 \<le> c \<and> c \<le> 0x5A")
  case True
  then have "unat c \<le> 90" and "c \<noteq> 0" by (auto simp: word_le_nat_alt)
  then have "unat (c + 0x20) = unat c + 32" by (simp add: unat_word_ariths)
  then have "c + 0x20 \<noteq> 0" by (metis add_is_0 unat_0 zero_neq_numeral)
  with True \<open>c \<noteq> 0\<close> show ?thesis by (simp add: tolower_def)
next
  case False
  then show ?thesis by (auto simp: tolower_def)
qed

lemma strncasecmp_no_nul:
  assumes "n \<le> length s1" and "n \<le> length s2" and "\<forall>c \<in> set (take n s2). c \<noteq> 0"
  shows "\<exists>r. strncasecmp s1 s2 n = Some r
             \<and> (r = 0 \<longleftrightarrow> map tolower (take n s1) = map tolower (take n s2))"
  using assms
proof (induction n arbitrary: s1 s2)
  case 0
  then show ?case by simp
next
  case (Suc n)
  from Suc.prems obtain a t1 b t2 where s: "s1 = a # t1" "s2 = b # t2"
    by (cases s1; cases s2) auto
  from Suc.prems s have b: "b \<noteq> 0" and t: "n \<le> length t1" "n \<le> length t2"
    "\<forall>c \<in> set (take n t2). c \<noteq> 0" by auto
  show ?case
  proof (cases "tolower a = tolower b")
    case True
    with b have "a \<noteq> 0" using tolower_eq_0 [of b] tolower_eq_0 [of a] by auto
    with True s Suc.IH [OF t] show ?thesis by simp
  next
    case False
    then have "uint (tolower a) - uint (tolower b) \<noteq> 0" by (auto dest: word_uint_eqI)
    with False s show ?thesis by simp
  qed
qed

lemma take_takeWhile_le:
  assumes "n \<le> length (takeWhile P xs)"
  shows "take n (takeWhile P xs) = take n xs"
proof -
  have "take n (takeWhile P xs @ dropWhile P xs) = take n (takeWhile P xs)"
    using assms by (simp del: takeWhile_dropWhile_id)
  then show ?thesis by simp
qed

lemma set_take_takeWhile: "c \<in> set (take n (takeWhile P xs)) \<Longrightarrow> P c"
  by (meson in_set_takeD set_takeWhileD)

lemma length_set_hostname: "length (llmnr_set_hostname H) = 65"
  by (simp add: llmnr_set_hostname_def strncpy_def strlen_def LLMNR_LABEL_MAX_SIZE_def)

lemma set_hostname_0: "llmnr_set_hostname H ! 0 = of_nat (strlen H)"
  by (simp add: llmnr_set_hostname_def)

lemma set_hostname_name:
  assumes "n \<le> strlen H" and "n \<le> 63"
  shows "take n (drop 1 (llmnr_set_hostname H)) = take n (takeWhile (\<lambda>c. c \<noteq> 0) H)"
  using assms
  by (simp add: llmnr_set_hostname_def strncpy_def strlen_def LLMNR_LABEL_MAX_SIZE_def)

lemma set_hostname_name_no_nul:
  assumes "unat (llmnr_set_hostname H ! 0) \<le> 63"
  shows "\<forall>c \<in> set (take (unat (llmnr_set_hostname H ! 0)) (drop 1 (llmnr_set_hostname H))). c \<noteq> 0"
proof -
  have "unat (llmnr_set_hostname H ! 0) \<le> strlen H"
    by (simp add: set_hostname_0 unat_of_nat)
  from set_hostname_name [OF this assms] show ?thesis
    by (auto dest: set_take_takeWhile)
qed

text \<open>
  For a host name of at most 63 bytes the array is a label: the length octet, that many
  name bytes, and a zero octet.
\<close>

lemma set_hostname_label:
  assumes "strlen H \<le> LLMNR_LABEL_MAX_SIZE"
  shows "unat (llmnr_set_hostname H ! 0) = strlen H"
    and "take (strlen H) (drop 1 (llmnr_set_hostname H)) = takeWhile (\<lambda>c. c \<noteq> 0) H"
    and "llmnr_set_hostname H ! (strlen H + 1) = 0"
proof -
  from assms have l: "strlen H \<le> 63" by (simp add: LLMNR_LABEL_MAX_SIZE_def)
  then show "unat (llmnr_set_hostname H ! 0) = strlen H"
    by (simp add: set_hostname_0 unat_of_nat)
  from set_hostname_name [OF order_refl l]
  show "take (strlen H) (drop 1 (llmnr_set_hostname H)) = takeWhile (\<lambda>c. c \<noteq> 0) H"
    by (simp add: strlen_def)
  from l show "llmnr_set_hostname H ! (strlen H + 1) = 0"
    by (auto simp: llmnr_set_hostname_def strncpy_def strlen_def LLMNR_LABEL_MAX_SIZE_def
        nth_append nth_Cons')
qed

lemma process_validated:
  assumes "length pktbuf = PKTBUF_SIZE" and "query_validated pktbuf len"
  shows "llmnr_packet_process le ttl hn ifaces ifindex pktbuf len =
           (case llmnr_name_matches hn (drop 12 pktbuf) of
              None \<Rightarrow> OutOfBounds
            | Some m \<Rightarrow>
                if m then llmnr_respond le ttl hn ifaces ifindex (hdr_overlay le (take 12 pktbuf))
                            (drop 12 pktbuf) (len - 12)
                else NoResponse)"
  using assms
  by (auto simp: llmnr_packet_process_def query_validated_def Let_def rd_def rds_def hdr_overlay_def
      ntohs_load_u16 load_u16_eq_0 flags_mask_eq_0 msg_flags_def msg_qdcount_def
      msg_ancount_def msg_nscount_def be16_eq_0 PKTBUF_SIZE_def LLMNR_LABEL_MAX_SIZE_def
      add.commute
      split: option.splits if_splits)

lemma name_matches_set_hostname:
  assumes "length pktbuf = PKTBUF_SIZE" and "query_validated pktbuf len"
  shows "llmnr_name_matches (llmnr_set_hostname H) (drop 12 pktbuf) =
           Some (pktbuf ! 12 = llmnr_set_hostname H ! 0
                 \<and> map tolower (take (unat (pktbuf ! 12)) (drop 13 pktbuf))
                   = map tolower (take (unat (pktbuf ! 12)) (drop 1 (llmnr_set_hostname H))))"
proof (cases "pktbuf ! 12 = llmnr_set_hostname H ! 0")
  case False
  with assms(1) show ?thesis
    by (simp add: llmnr_name_matches_def rd_def length_set_hostname PKTBUF_SIZE_def)
next
  case True
  let ?hn = "llmnr_set_hostname H"
  let ?n = "unat (?hn ! 0)"
  from assms(2) True have n: "?n \<le> 63" and z: "pktbuf ! (13 + ?n) = 0"
    by (simp_all add: query_validated_def)
  have "\<exists>r. strncasecmp (drop 13 pktbuf) (drop 1 ?hn) ?n = Some r
          \<and> (r = 0 \<longleftrightarrow> map tolower (take ?n (drop 13 pktbuf)) = map tolower (take ?n (drop 1 ?hn)))"
    using n assms(1)
    by (intro strncasecmp_no_nul set_hostname_name_no_nul)
      (simp_all add: length_set_hostname PKTBUF_SIZE_def)
  then obtain r where r: "strncasecmp (drop 13 pktbuf) (drop 1 ?hn) ?n = Some r"
    and r0: "r = 0 \<longleftrightarrow> map tolower (take ?n (drop 13 pktbuf)) = map tolower (take ?n (drop 1 ?hn))"
    by blast
  from assms(1) n z True r r0 show ?thesis
    by (simp add: llmnr_name_matches_def rd_def length_set_hostname PKTBUF_SIZE_def add.commute)
qed


section \<open>The response builder in the receive buffer\<close>

text \<open>
  The length check of the response builder when the subtraction does not wrap around,
  the response builder unfolded for a datagram in the 2048-byte buffer, and what follows:
  no read leaves the buffer or the hostname array, the drops of the response builder, and
  the answer to a query of type ANY.
\<close>

lemma size_guard:
  assumes "ql < 2 ^ 64" and "unat nl + 2 \<le> ql"
  shows "(of_nat ql :: size_t) - ucast (nl :: byte) - 2 < 4 \<longleftrightarrow> ql - unat nl - 2 < 4"
proof -
  have "(of_nat ql :: size_t) - ucast nl - 2 = of_nat (ql - unat nl - 2)"
    using assms(2) by (simp add: of_nat_diff)
  moreover have "unat (of_nat (ql - unat nl - 2) :: size_t) = ql - unat nl - 2"
    using assms(1) by (simp add: unat_of_nat)
  ultimately show ?thesis by (simp add: word_less_nat_alt)
qed

lemma respond_unfold:
  assumes buf: "length pktbuf = PKTBUF_SIZE" and len: "12 \<le> len" "len \<le> PKTBUF_SIZE"
    and n: "unat (pktbuf ! 12) \<le> 63" and nowrap: "unat (pktbuf ! 12) + 2 \<le> len - 12"
  shows "llmnr_respond le ttl hn ifaces ifindex hdr (drop 12 pktbuf) (len - 12) =
     (if len - 12 - unat (pktbuf ! 12) - 2 < 4 then NoResponse
      else if msg_qclass pktbuf \<noteq> LLMNR_QCLASS_IN then NoResponse
      else if msg_qtype pktbuf \<noteq> LLMNR_QTYPE_A \<and> msg_qtype pktbuf \<noteq> LLMNR_QTYPE_ANY then NoResponse
      else let addrs = iface_addr_lookup ifaces ifindex
                         (if msg_qtype pktbuf = LLMNR_QTYPE_A then AF_INET else AF_UNSPEC) 16
           in if addrs = [] then NoResponse
              else case rr_loop le ttl hn (len - 12) 0 addrs
                     (hdr_store le \<lparr>hdr_id = hdr_id hdr, hdr_flags = htons le LLMNR_F_QR,
                         hdr_qdcount = hdr_qdcount hdr,
                         hdr_ancount = htons le (of_nat (length addrs)),
                         hdr_nscount = 0, hdr_arcount = 0\<rparr>
                       @ take (len - 12) (drop 12 pktbuf)) of
                     None \<Rightarrow> OutOfBounds | Some p \<Rightarrow> Response p)"
proof -
  from len have q: "len - 12 < 2 ^ 64" by (simp add: PKTBUF_SIZE_def)
  have i: "unat (pktbuf ! 12) + 2 + 12 = 14 + unat (pktbuf ! 12)"
    "unat (pktbuf ! 12) + 2 + 12 + 1 = 15 + unat (pktbuf ! 12)"
    "unat (pktbuf ! 12) + 2 + 12 + 2 = 16 + unat (pktbuf ! 12)"
    "unat (pktbuf ! 12) + 2 + 12 + 3 = 17 + unat (pktbuf ! 12)"
    by simp_all
  have rd0: "rd (drop 12 pktbuf) 0 = Some (pktbuf ! 12)"
    using buf by (simp add: rd_def PKTBUF_SIZE_def)
  have rd4: "rds (drop 12 pktbuf) (unat (pktbuf ! 12) + 2) 4
      = Some [pktbuf ! (14 + unat (pktbuf ! 12)), pktbuf ! (15 + unat (pktbuf ! 12)),
              pktbuf ! (16 + unat (pktbuf ! 12)), pktbuf ! (17 + unat (pktbuf ! 12))]"
  proof -
    let ?d = "drop (unat (pktbuf ! 12) + 2) (drop 12 pktbuf)"
    from buf n have l: "4 \<le> length ?d" by (simp add: PKTBUF_SIZE_def)
    then have "take 4 ?d = [?d ! 0, ?d ! 1, ?d ! 2, ?d ! 3]"
      by (intro nth_equalityI) (auto simp: less_Suc_eq numeral_eq_Suc)
    moreover from buf n have "?d ! 0 = pktbuf ! (14 + unat (pktbuf ! 12))"
      "?d ! 1 = pktbuf ! (15 + unat (pktbuf ! 12))"
      "?d ! 2 = pktbuf ! (16 + unat (pktbuf ! 12))"
      "?d ! 3 = pktbuf ! (17 + unat (pktbuf ! 12))"
      by (simp_all add: PKTBUF_SIZE_def add.commute add.left_commute)
    ultimately show ?thesis using buf n by (simp add: rds_def PKTBUF_SIZE_def)
  qed
  have rdq: "rds (drop 12 pktbuf) 0 (len - 12) = Some (take (len - 12) (drop 12 pktbuf))"
    using buf len by (simp add: rds_def PKTBUF_SIZE_def)
  show ?thesis
    unfolding llmnr_respond_def rd0 rd4 rdq option.case size_guard [OF q nowrap]
    by (simp add: Let_def ntohs_load_u16 msg_qclass_def msg_qtype_def pkt_put_def)
qed

lemma rr_loop_Some:
  assumes "hn \<noteq> []" and "unat (hn ! 0) + 2 \<le> length hn"
  shows "\<exists>s. rr_loop le ttl hn query_len i addrs p = Some s"
proof (induction addrs arbitrary: i p)
  case Nil
  then show ?case by simp
next
  case (Cons a as)
  from assms have "\<exists>p1. rr_name le hn query_len i p = Some p1"
    by (cases i) (simp_all add: rr_name_0 rr_name_Suc)
  then show ?case using Cons.IH by (auto split: option.splits)
qed

lemma rr_loop_case:
  assumes "hn \<noteq> []" and "unat (hn ! 0) + 2 \<le> length hn"
  shows "(case rr_loop le ttl hn query_len i addrs p of
            None \<Rightarrow> OutOfBounds | Some p' \<Rightarrow> Response p') \<noteq> OutOfBounds"
  using rr_loop_Some [OF assms, of le ttl query_len i addrs p] by auto

lemma not_validated_iff:
  "\<not> query_validated pktbuf len \<longleftrightarrow>
     (len < 12
      \<or> msg_flags pktbuf AND LLMNR_F_QR \<noteq> 0
      \<or> msg_flags pktbuf AND LLMNR_F_OPCODE \<noteq> 0
      \<or> msg_flags pktbuf AND LLMNR_F_TC \<noteq> 0
      \<or> msg_qdcount pktbuf \<noteq> 1
      \<or> msg_ancount pktbuf \<noteq> 0 \<or> msg_nscount pktbuf \<noteq> 0
      \<or> pktbuf ! 12 = 0 \<or> unat (pktbuf ! 12) \<ge> len - 12 \<or> unat (pktbuf ! 12) > 63
      \<or> pktbuf ! (13 + unat (pktbuf ! 12)) \<noteq> 0)"
  by (auto simp: query_validated_def)

lemma respond_no_OutOfBounds:
  assumes buf: "length pktbuf = PKTBUF_SIZE" and len: "12 \<le> len" "len \<le> PKTBUF_SIZE"
    and n: "unat (pktbuf ! 12) \<le> 63"
    and hn: "hn \<noteq> []" "unat (hn ! 0) + 2 \<le> length hn"
  shows "llmnr_respond le ttl hn ifaces ifindex hdr (drop 12 pktbuf) (len - 12) \<noteq> OutOfBounds"
proof -
  have rd0: "rd (drop 12 pktbuf) 0 = Some (pktbuf ! 12)"
    using buf by (simp add: rd_def PKTBUF_SIZE_def)
  from buf n obtain qq where rd4: "rds (drop 12 pktbuf) (unat (pktbuf ! 12) + 2) 4 = Some qq"
    by (simp add: rds_def PKTBUF_SIZE_def)
  have rdq: "rds (drop 12 pktbuf) 0 (len - 12) = Some (take (len - 12) (drop 12 pktbuf))"
    using buf len by (simp add: rds_def PKTBUF_SIZE_def)
  show ?thesis
    unfolding llmnr_respond_def rd0 rd4 rdq option.case
    by (simp add: Let_def rr_loop_case [OF hn])
qed

lemma process_no_OutOfBounds:
  assumes buf: "length pktbuf = PKTBUF_SIZE" and len: "len \<le> PKTBUF_SIZE"
  shows "llmnr_packet_process le ttl (llmnr_set_hostname H) ifaces ifindex pktbuf len
           \<noteq> OutOfBounds"
proof (cases "query_validated pktbuf len")
  case False
  then have "llmnr_packet_process le ttl (llmnr_set_hostname H) ifaces ifindex pktbuf len
               = NoResponse"
    unfolding not_validated_iff by (rule process_drop_NoResponse [OF buf])
  then show ?thesis by simp
next
  case True
  let ?hn = "llmnr_set_hostname H"
  note m = name_matches_set_hostname [OF buf True, of H]
  from True have v: "12 \<le> len" "unat (pktbuf ! 12) \<le> 63" by (simp_all add: query_validated_def)
  show ?thesis
  proof (cases "llmnr_name_matches ?hn (drop 12 pktbuf) = Some True")
    case False
    with m show ?thesis unfolding process_validated [OF buf True] by auto
  next
    case mt: True
    with m have "pktbuf ! 12 = ?hn ! 0" by simp
    with v have "?hn \<noteq> []" "unat (?hn ! 0) + 2 \<le> length ?hn"
      using length_set_hostname [of H] by auto
    from respond_no_OutOfBounds [OF buf v(1) len v(2) this] mt show ?thesis
      unfolding process_validated [OF buf True] by simp
  qed
qed

lemma respond_drops:
  assumes buf: "length pktbuf = PKTBUF_SIZE" and len: "len \<le> PKTBUF_SIZE"
    and v: "query_validated pktbuf len"
    and nowrap: "unat (pktbuf ! 12) + 2 \<le> len - 12"
    and c: "len - 12 - (unat (pktbuf ! 12) + 2) < 4
            \<or> msg_qclass pktbuf \<noteq> LLMNR_QCLASS_IN
            \<or> (msg_qtype pktbuf \<noteq> LLMNR_QTYPE_A \<and> msg_qtype pktbuf \<noteq> LLMNR_QTYPE_ANY)
            \<or> iface_addr_lookup ifaces ifindex
                 (if msg_qtype pktbuf = LLMNR_QTYPE_A then AF_INET else AF_UNSPEC) 16 = []"
  shows "llmnr_packet_process le ttl (llmnr_set_hostname H) ifaces ifindex pktbuf len = NoResponse"
proof -
  from v have l: "12 \<le> len" "unat (pktbuf ! 12) \<le> 63" by (simp_all add: query_validated_def)
  note u = respond_unfold [OF buf l(1) len l(2) nowrap]
  note m = name_matches_set_hostname [OF buf v, of H]
  from c show ?thesis
    unfolding process_validated [OF buf v] m u by (auto simp: Let_def)
qed

lemma any_query_response:
  assumes buf: "length pktbuf = PKTBUF_SIZE" and len: "len \<le> PKTBUF_SIZE"
    and v: "query_validated pktbuf len"
    and m: "llmnr_name_matches (llmnr_set_hostname H) (drop 12 pktbuf) = Some True"
    and q: "unat (pktbuf ! 12) + 2 + 4 \<le> len - 12"
    and t: "msg_qtype pktbuf = LLMNR_QTYPE_ANY" and c: "msg_qclass pktbuf = LLMNR_QCLASS_IN"
  shows "(\<exists>r. llmnr_packet_process le ttl (llmnr_set_hostname H) ifaces ifindex pktbuf len
                = Response r) \<longleftrightarrow> ifaces ifindex \<noteq> []"
    and "llmnr_packet_process le ttl (llmnr_set_hostname H) ifaces ifindex pktbuf len = Response r
         \<Longrightarrow> msg_ancount r = of_nat (min (length (ifaces ifindex)) 16)"
proof -
  let ?hn = "llmnr_set_hostname H"
  let ?P = "llmnr_packet_process le ttl ?hn ifaces ifindex pktbuf len"
  from v have l: "12 \<le> len" "unat (pktbuf ! 12) \<le> 63" by (simp_all add: query_validated_def)
  from q have nowrap: "unat (pktbuf ! 12) + 2 \<le> len - 12" by simp
  note u = respond_unfold [OF buf l(1) len l(2) nowrap]
  from name_matches_set_hostname [OF buf v, of H] m have "pktbuf ! 12 = ?hn ! 0" by simp
  with l have hn: "?hn \<noteq> []" "unat (?hn ! 0) + 2 \<le> length ?hn"
    using length_set_hostname [of H] by auto
  have lk: "iface_addr_lookup ifaces ifindex AF_UNSPEC 16 = take 16 (ifaces ifindex)"
    by (simp add: iface_addr_lookup_def)
  have ne: "LLMNR_QTYPE_ANY \<noteq> LLMNR_QTYPE_A"
    by (simp add: LLMNR_QTYPE_ANY_def LLMNR_QTYPE_A_def)
  from rr_loop_Some [OF hn] obtain s where
    s: "rr_loop le ttl ?hn (len - 12) 0 (take 16 (ifaces ifindex))
          (hdr_store le \<lparr>hdr_id = hdr_id (hdr_overlay le (take 12 pktbuf)),
              hdr_flags = htons le LLMNR_F_QR,
              hdr_qdcount = hdr_qdcount (hdr_overlay le (take 12 pktbuf)),
              hdr_ancount = htons le (of_nat (length (take 16 (ifaces ifindex)))),
              hdr_nscount = 0, hdr_arcount = 0\<rparr>
            @ take (len - 12) (drop 12 pktbuf)) = Some s"
    by blast
  have P: "?P = (if ifaces ifindex = [] then NoResponse else Response s)"
  proof -
    from q have g: "\<not> len - 12 - unat (pktbuf ! 12) - 2 < 4" by arith
    have "?P = llmnr_respond le ttl ?hn ifaces ifindex (hdr_overlay le (take 12 pktbuf))
                 (drop 12 pktbuf) (len - 12)"
      unfolding process_validated [OF buf v] m by simp
    also have "\<dots> = (if ifaces ifindex = [] then NoResponse else Response s)"
      unfolding u if_not_P [OF g] t c using ne s
      by (simp add: lk Let_def)
    finally show ?thesis .
  qed
  show "(\<exists>r. ?P = Response r) \<longleftrightarrow> ifaces ifindex \<noteq> []"
    unfolding P by simp
  assume "?P = Response r"
  with P have r: "r = s" and "ifaces ifindex \<noteq> []" by (auto split: if_splits)
  from rr_loop_prefix [OF s] obtain s' where
    "s = (hdr_store le \<lparr>hdr_id = hdr_id (hdr_overlay le (take 12 pktbuf)),
              hdr_flags = htons le LLMNR_F_QR,
              hdr_qdcount = hdr_qdcount (hdr_overlay le (take 12 pktbuf)),
              hdr_ancount = htons le (of_nat (length (take 16 (ifaces ifindex)))),
              hdr_nscount = 0, hdr_arcount = 0\<rparr>
            @ take (len - 12) (drop 12 pktbuf)) @ s'"
    by blast
  then have "msg_ancount r = be16 (hi8 (of_nat (length (take 16 (ifaces ifindex)))))
                                  (lo8 (of_nat (length (take 16 (ifaces ifindex)))))"
    unfolding r by (simp add: hdr_store_response msg_ancount_def)
  then show "msg_ancount r = of_nat (min (length (ifaces ifindex)) 16)"
    by (simp add: be16_hi_lo)
qed

section \<open>Evaluation on the example data\<close>

lemma ex_pktbuf_length: "length ex_pktbuf = PKTBUF_SIZE"
  by (simp add: ex_pktbuf_def ex_query_def PKTBUF_SIZE_def)

lemma ex_pktbuf_validated: "query_validated ex_pktbuf 24"
  by code_simp

lemma ex_pktbuf_matches:
  "llmnr_name_matches (llmnr_set_hostname ex_myhost) (drop 12 ex_pktbuf) = Some True"
  by code_simp

lemma ex_query_response:
  "llmnr_packet_process True 30 (llmnr_set_hostname ex_myhost) (\<lambda>_. [ex_addr4]) 1 ex_query 24
     = Response ex_response"
  by code_simp

lemma ex_pktbuf_response:
  "llmnr_packet_process True 30 (llmnr_set_hostname ex_myhost) (\<lambda>_. [ex_addr4]) 1 ex_pktbuf 24
     = Response ex_response"
  by code_simp

lemma ex_dual_response:
  "llmnr_packet_process True 30 (llmnr_set_hostname ex_myhost)
     (\<lambda>_. [ex_addr4, ex_addr6, ex_addr4b]) 1 ex_pktbuf 24 = Response ex_response3"
  by code_simp

lemma ex_pad_response:
  "llmnr_packet_process True 30 (llmnr_set_hostname ex_myhost) (\<lambda>_. [ex_addr4, ex_addr4b]) 1
     ex_pktbuf_pad 25 = Response ex_response_pad"
  by code_simp

section \<open>ANCOUNT and the records written\<close>

text \<open>
  C1. The claim: ANCOUNT equals the number of resource records appended. The code sets
  ANCOUNT to the number of addresses the lookup returned and then skips every address
  that is not IPv4. For the query of type ANY on an interface whose only address is an
  IPv6 address, the response has ANCOUNT = 1 and no resource record: it ends with the
  echoed question.
\<close>

theorem ancount_counts_skipped_address:
  "llmnr_packet_process le ttl (llmnr_set_hostname ex_myhost) (\<lambda>_. [ex_addr6]) ifindex
     ex_pktbuf 24 = Response ex_response_no_rr
   \<and> msg_ancount ex_response_no_rr = 1
   \<and> drop 12 ex_response_no_rr = drop 12 ex_query
   \<and> rr_loop le ttl (llmnr_set_hostname ex_myhost) (24 - 12) 0 [ex_addr6] [] = Some []"
proof -
  have "llmnr_packet_process le ttl (llmnr_set_hostname ex_myhost) (\<lambda>_. [ex_addr6]) ifindex
     ex_pktbuf 24 = Response ex_response_no_rr"
    unfolding process_validated [OF ex_pktbuf_length ex_pktbuf_validated] ex_pktbuf_matches
    by (simp add: llmnr_respond_def ex_pktbuf_def ex_query_def rd_def rds_def Let_def nth_append
        ntohs_load_u16 be16_def LLMNR_QCLASS_IN_def LLMNR_QTYPE_A_def LLMNR_QTYPE_ANY_def
        iface_addr_lookup_def AF_UNSPEC_def AF_INET_def AF_INET6_def ex_addr6_def pkt_put_def
        hdr_store_response hi8_def lo8_def ex_response_no_rr_def)
  moreover have "msg_ancount ex_response_no_rr = 1"
    by (simp add: msg_ancount_def ex_response_no_rr_def be16_def)
  moreover have "drop 12 ex_response_no_rr = drop 12 ex_query"
    by (simp add: ex_response_no_rr_def ex_query_def)
  moreover have "rr_loop le ttl (llmnr_set_hostname ex_myhost) (24 - 12) 0 [ex_addr6] [] = Some []"
    by (simp add: ex_addr6_def AF_INET_def AF_INET6_def)
  ultimately show ?thesis by blast
qed

theorem ancount_counts_skipped_address_witness:
  "llmnr_packet_process True 30 (llmnr_set_hostname ex_myhost) (\<lambda>_. [ex_addr6]) 1
     ex_pktbuf 24 = Response ex_response_no_rr
   \<and> msg_ancount ex_response_no_rr = 1 \<and> length ex_response_no_rr = 12 + length (drop 12 ex_query)"
proof -
  have "length ex_response_no_rr = 12 + length (drop 12 ex_query)"
    by (simp add: ex_response_no_rr_def ex_query_def)
  with ancount_counts_skipped_address [of True 30 1] show ?thesis by blast
qed

section \<open>The length octet of an over-long host name\<close>

text \<open>
  C2. The claim: the length octet of the stored label never exceeds 63. For a host name
  of 64 bytes the code stores the length octet 64, followed by the first 63 bytes of the
  name and the final zero octet.
\<close>

theorem set_hostname_overlong:
  "llmnr_set_hostname (replicate 64 0x61) = 64 # replicate 63 0x61 @ [0]
   \<and> unat (llmnr_set_hostname (replicate 64 0x61) ! 0) = 64
   \<and> length (llmnr_set_hostname (replicate 64 0x61)) = LLMNR_LABEL_MAX_SIZE + 2"
  by (simp add: llmnr_set_hostname_def strlen_def strncpy_def LLMNR_LABEL_MAX_SIZE_def)

section \<open>The compression pointer\<close>

text \<open>
  The layout behind the pointer. \<open>addrs\<close> is what the lookup returned for the family
  the QTYPE selects. When the first of them is IPv4, the record for an IPv4 address of
  index \<open>k \<ge> 1\<close> follows the first record and one 16-byte record for every IPv4 address
  between them; its NAME is the pointer, which holds the offset at which the answer
  records start.
\<close>

lemma pointer_record:
  assumes resp: "llmnr_packet_process le ttl hn ifaces ifindex pktbuf len = Response r"
    and buf: "length pktbuf = PKTBUF_SIZE"
    and nowrap: "unat (pktbuf ! 12) + 2 \<le> len - 12"
    and addrs: "addrs = iface_addr_lookup ifaces ifindex
                  (if msg_qtype pktbuf = LLMNR_QTYPE_A then AF_INET else AF_UNSPEC) 16"
    and first: "ss_family (addrs ! 0) = AF_INET"
    and k: "1 \<le> k" "k < length addrs" "ss_family (addrs ! k) = AF_INET"
    and off: "off = len + (unat (pktbuf ! 12) + 2 + 14)
                + 16 * length (filter (\<lambda>a. ss_family a = AF_INET) (take (k - 1) (drop 1 addrs)))"
  shows "take 16 (drop off r) =
           [hi8 (name_pointer (len - 12)), lo8 (name_pointer (len - 12))]
             @ rr_wire_tail ttl (addrs ! k)
         \<and> r ! off AND 0xC0 = 0xC0
         \<and> unat (be16 (r ! off) (r ! (off + 1)) AND 0x3FFF) = 12 + (len - 12)
         \<and> take (unat (pktbuf ! 12) + 2) (drop (12 + (len - 12)) r)
             = take (unat (pktbuf ! 12) + 2) hn"
proof -
  let ?n = "unat (pktbuf ! 12)"
  let ?ptr = "name_pointer (len - 12)"
  let ?f = "\<lambda>a. [hi8 ?ptr, lo8 ?ptr] @ rr_wire_tail ttl a"
  let ?inet = "\<lambda>a. ss_family a = AF_INET"
  note d = process_ResponseD [OF resp]
  from name_matches_TrueD(3) [OF d(14)] d(2) have h0: "hn ! 0 = pktbuf ! 12" by simp
  from resp have lenb: "len \<le> length pktbuf" by (rule process_Response_layout)
  with buf have len: "len \<le> PKTBUF_SIZE" by simp
  from d(11) have n63: "?n \<le> 63" by (simp add: LLMNR_LABEL_MAX_SIZE_def)
  define hdr where "hdr = hdr_store le \<lparr>hdr_id = hdr_id (hdr_overlay le (take 12 pktbuf)),
      hdr_flags = htons le LLMNR_F_QR,
      hdr_qdcount = hdr_qdcount (hdr_overlay le (take 12 pktbuf)),
      hdr_ancount = htons le (of_nat (length addrs)), hdr_nscount = 0, hdr_arcount = 0\<rparr>"
  have lp: "rr_loop le ttl hn (len - 12) 0 addrs (hdr @ take (len - 12) (drop 12 pktbuf)) = Some r"
    using d(15) unfolding respond_unfold [OF buf d(1) len n63 nowrap] addrs [symmetric] hdr_def
    by (auto simp: Let_def split: if_splits option.splits)
  from k obtain a as where c: "addrs = a # as" by (cases addrs) auto
  with first have a: "ss_family a = AF_INET" by simp
  define front where "front = hdr @ take (len - 12) (drop 12 pktbuf)"
  define label where "label = take (?n + 2) hn"
  note cf = rr_loop_first [OF a lp [unfolded c]]
  from cf(2) have hn: "?n + 2 \<le> length hn" unfolding h0 .
  have r': "r = (front @ label @ rr_wire_tail ttl a) @ concat (map ?f (filter ?inet as))"
    using cf(1) unfolding front_def label_def h0 by simp
  from lenb d(1) have lf: "length front = len"
    by (simp add: front_def hdr_def length_hdr_store)
  from hn have ll: "length label = ?n + 2" by (simp add: label_def)
  have as: "drop 1 addrs = as" unfolding c by simp
  from k c have km: "k - 1 < length as" by (cases k) auto
  from k have nk: "as ! (k - 1) = addrs ! k" unfolding c by (cases k) simp_all
  with k(3) have pk: "?inet (as ! (k - 1))" by simp
  define j where "j = length (filter ?inet (take (k - 1) as))"
  note fc = filter_nth_count [of "k - 1" as ?inet, OF km pk, folded j_def]
  have fl: "\<forall>x \<in> set (filter ?inet as). length (?f x) = 16"
    by (simp add: length_rr_wire_tail)
  have off': "off = length (front @ label @ rr_wire_tail ttl a) + 16 * j"
    unfolding off as j_def by (simp add: lf ll length_rr_wire_tail)
  have dr: "drop off r = drop (16 * j) (concat (map ?f (filter ?inet as)))"
    unfolding r' off' by (rule drop_length_plus)
  have t16: "take 16 (drop off r) = ?f (addrs ! k)"
    unfolding dr take_concat_fixed [OF fl fc(1)] fc(2) nk ..
  then have "drop off r \<noteq> []" "length (drop off r) \<ge> 2"
    by (auto simp: length_rr_wire_tail dest: arg_cong [where f = length])
  then have "r ! off = take 16 (drop off r) ! 0" "r ! (off + 1) = take 16 (drop off r) ! 1"
    by simp_all
  then have b: "r ! off = hi8 ?ptr" "r ! (off + 1) = lo8 ?ptr"
    unfolding t16 by simp_all
  from len have "12 + (len - 12) < 2 ^ 14" by (simp add: PKTBUF_SIZE_def)
  then have low: "unat (?ptr AND 0x3FFF) = 12 + (len - 12)"
    unfolding name_pointer_def by (rule ptr_low)
  have top: "hi8 ?ptr AND 0xC0 = 0xC0"
    unfolding name_pointer_def by (rule ptr_top)
  from d(1) have "12 + (len - 12) = length front" by (simp add: lf)
  then have lbl: "take (?n + 2) (drop (12 + (len - 12)) r) = take (?n + 2) hn"
    unfolding r' using ll by (simp add: label_def)
  from t16 b low top lbl show ?thesis by (simp add: be16_hi_lo)
qed

text \<open>
  C3, as amended. In a response to a query whose payload ends with QCLASS, received in
  the 2048-byte buffer, where the first address the lookup returned is IPv4: the record
  written for an IPv4 address of index \<open>k \<ge> 1\<close> starts at offset \<open>off\<close> and has a 2-byte
  NAME whose top two bits are 11 and whose 14-bit offset is 12 plus the length of the
  question (QNAME, QTYPE and QCLASS). At that offset of the response lies the NAME of the
  first answer record, the stored label; the QNAME of the echoed question lies at
  offset 12.
\<close>

theorem compression_pointer:
  assumes resp: "llmnr_packet_process le ttl hn ifaces ifindex pktbuf len = Response r"
    and buf: "length pktbuf = PKTBUF_SIZE"
    and exact: "len = 12 + (unat (pktbuf ! 12) + 2 + 4)"
    and addrs: "addrs = iface_addr_lookup ifaces ifindex
                  (if msg_qtype pktbuf = LLMNR_QTYPE_A then AF_INET else AF_UNSPEC) 16"
    and first: "ss_family (addrs ! 0) = AF_INET"
    and k: "1 \<le> k" "k < length addrs" "ss_family (addrs ! k) = AF_INET"
    and off: "off = len + (unat (pktbuf ! 12) + 2 + 14)
                + 16 * length (filter (\<lambda>a. ss_family a = AF_INET) (take (k - 1) (drop 1 addrs)))"
  shows "drop 2 (take 16 (drop off r)) = rr_wire_tail ttl (addrs ! k)
         \<and> r ! off AND 0xC0 = 0xC0
         \<and> unat (be16 (r ! off) (r ! (off + 1)) AND 0x3FFF) = 12 + (unat (pktbuf ! 12) + 2 + 4)
         \<and> take (unat (pktbuf ! 12) + 2) (drop (12 + (unat (pktbuf ! 12) + 2 + 4)) r)
             = take (unat (pktbuf ! 12) + 2) hn"
proof -
  from exact have l: "12 + (len - 12) = 12 + (unat (pktbuf ! 12) + 2 + 4)" by simp
  from exact have nowrap: "unat (pktbuf ! 12) + 2 \<le> len - 12" by simp
  from pointer_record [OF resp buf nowrap addrs first k off] show ?thesis
    unfolding l by simp
qed

theorem compression_pointer_witness:
  "llmnr_packet_process True 30 (llmnr_set_hostname ex_myhost)
     (\<lambda>_. [ex_addr4, ex_addr6, ex_addr4b]) 1 ex_pktbuf 24 = Response ex_response3
   \<and> length ex_pktbuf = PKTBUF_SIZE
   \<and> drop 2 (take 16 (drop 46 ex_response3)) = [0, 1, 0, 1, 0, 0, 0, 30, 0, 4, 192, 0, 2, 6]
   \<and> ex_response3 ! 46 AND 0xC0 = 0xC0
   \<and> unat (be16 (ex_response3 ! 46) (ex_response3 ! 47) AND 0x3FFF) = 24
   \<and> take 8 (drop 24 ex_response3) = take 8 (llmnr_set_hostname ex_myhost)"
proof -
  let ?addrs = "[ex_addr4, ex_addr6, ex_addr4b]"
  have exact: "(24::nat) = 12 + (unat (ex_pktbuf ! 12) + 2 + 4)"
    by (simp add: ex_pktbuf_def ex_query_def)
  have addrs: "?addrs = iface_addr_lookup (\<lambda>_. [ex_addr4, ex_addr6, ex_addr4b]) 1
                  (if msg_qtype ex_pktbuf = LLMNR_QTYPE_A then AF_INET else AF_UNSPEC) 16"
    by (simp add: iface_addr_lookup_def msg_qtype_def ex_pktbuf_def ex_query_def nth_append
        be16_def LLMNR_QTYPE_A_def)
  have first: "ss_family (?addrs ! 0) = AF_INET"
    by (simp add: ex_addr4_def)
  have k: "(1::nat) \<le> 2" "2 < length ?addrs" "ss_family (?addrs ! 2) = AF_INET"
    by (simp_all add: ex_addr4b_def)
  have off: "(46::nat) = 24 + (unat (ex_pktbuf ! 12) + 2 + 14)
      + 16 * length (filter (\<lambda>a. ss_family a = AF_INET) (take (2 - 1) (drop 1 ?addrs)))"
    by (simp add: ex_pktbuf_def ex_query_def ex_addr6_def AF_INET_def AF_INET6_def)
  have n: "unat (ex_pktbuf ! 12) + 2 = 8" "12 + (8 + 4) = (24::nat)"
    by (simp_all add: ex_pktbuf_def ex_query_def)
  have t: "rr_wire_tail 30 (?addrs ! 2) = [0, 1, 0, 1, 0, 0, 0, 30, 0, 4, 192, 0, 2, 6]"
    by (simp add: rr_wire_tail_def ex_addr4b_def be_bytes32_def)
  note c = compression_pointer [OF ex_dual_response ex_pktbuf_length exact addrs first k off]
  from c show ?thesis
    unfolding n t using ex_dual_response ex_pktbuf_length by simp
qed

text \<open>
  The claim as stated fails for a query with one byte after QCLASS: the pointer of the
  second record holds the offset 25, not 12 plus the length 12 of the question; and what
  lies at the offset it holds is the NAME of the first answer record ("myhost"), while
  the QNAME of the echoed question ("MYHOST") lies at offset 12.
\<close>

theorem compression_pointer_counterexample:
  "llmnr_packet_process True 30 (llmnr_set_hostname ex_myhost) (\<lambda>_. [ex_addr4, ex_addr4b]) 1
     ex_pktbuf_pad 25 = Response ex_response_pad
   \<and> take 2 (drop 47 ex_response_pad) = [0xC0, 0x19]
   \<and> unat (be16 0xC0 0x19 AND 0x3FFF) = 25
   \<and> 12 + (unat (ex_pktbuf_pad ! 12) + 2 + 4) = 24
   \<and> take 8 (drop 12 ex_response_pad) = [6, 0x4D, 0x59, 0x48, 0x4F, 0x53, 0x54, 0]
   \<and> take 8 (drop 25 ex_response_pad) = [6, 0x6D, 0x79, 0x68, 0x6F, 0x73, 0x74, 0]"
proof -
  note ex_pad_response
  moreover have "take 2 (drop 47 ex_response_pad) = [0xC0, 0x19]"
    "take 8 (drop 12 ex_response_pad) = [6, 0x4D, 0x59, 0x48, 0x4F, 0x53, 0x54, 0]"
    "take 8 (drop 25 ex_response_pad) = [6, 0x6D, 0x79, 0x68, 0x6F, 0x73, 0x74, 0]"
    by (simp_all add: ex_response_pad_def)
  moreover have "unat (be16 0xC0 0x19 AND 0x3FFF) = 25" by (simp add: be16_def)
  moreover have "12 + (unat (ex_pktbuf_pad ! 12) + 2 + 4) = 24"
    by (simp add: ex_pktbuf_pad_def ex_query_def)
  ultimately show ?thesis by blast
qed

section \<open>The echoed question\<close>

text \<open>
  What the code echoes: the bytes of a response from offset 12 to offset \<open>len\<close> are the
  whole received payload after the header, and the answer records, as the loop writes
  them, start at offset \<open>len\<close>.
\<close>

lemma response_echo:
  assumes "llmnr_packet_process le ttl hn ifaces ifindex pktbuf len = Response r"
  shows "12 \<le> len \<and> len \<le> length pktbuf
         \<and> drop 12 (take len r) = drop 12 (take len pktbuf)
         \<and> (\<exists>family. (family = AF_INET \<or> family = AF_UNSPEC)
               \<and> rr_loop le ttl hn (len - 12) 0 (iface_addr_lookup ifaces ifindex family 16) []
                   = Some (drop len r))"
proof -
  note d = process_ResponseD [OF assms]
  from assms obtain family s where f: "family = AF_INET \<or> family = AF_UNSPEC"
    and len: "len \<le> length pktbuf"
    and lp: "rr_loop le ttl hn (len - 12) 0 (iface_addr_lookup ifaces ifindex family 16) [] = Some s"
    and r: "r = [pktbuf ! 0, pktbuf ! 1, 0x80, 0, pktbuf ! 4, pktbuf ! 5,
              hi8 (of_nat (length (iface_addr_lookup ifaces ifindex family 16))),
              lo8 (of_nat (length (iface_addr_lookup ifaces ifindex family 16))), 0, 0, 0, 0]
             @ take (len - 12) (drop 12 pktbuf) @ s"
    by (rule process_Response_layout)
  define front where "front =
     [pktbuf ! 0, pktbuf ! 1, 0x80, 0, pktbuf ! 4, pktbuf ! 5,
      hi8 (of_nat (length (iface_addr_lookup ifaces ifindex family 16))),
      lo8 (of_nat (length (iface_addr_lookup ifaces ifindex family 16))), 0, 0, 0, 0]"
  define q where "q = take (len - 12) (drop 12 pktbuf)"
  have lf: "length front = 12" by (simp add: front_def)
  from len d(1) have lq: "length q = len - 12" by (simp add: q_def)
  have r': "r = front @ q @ s" unfolding r front_def q_def by simp
  from d(1) lf lq have "take len r = front @ q" unfolding r' by simp
  then have "drop 12 (take len r) = q" using lf by simp
  moreover have "q = drop 12 (take len pktbuf)" unfolding q_def by (simp add: drop_take)
  moreover from d(1) lf lq have "drop len r = s" unfolding r' by simp
  ultimately show ?thesis using d(1) len f lp by auto
qed

text \<open>
  C4. The claim: the bytes between the header and the first answer record are exactly
  the received question section, also for a query with bytes after QCLASS. For the query
  followed by one more byte, the code echoes the question section and that byte: the 13
  bytes between the header and the first answer record are not the 12 bytes of the
  question section.
\<close>

theorem question_echo_trailing_byte:
  "llmnr_packet_process True 30 (llmnr_set_hostname ex_myhost) (\<lambda>_. [ex_addr4, ex_addr4b]) 1
     ex_pktbuf_pad 25 = Response ex_response_pad
   \<and> rr_loop True 30 (llmnr_set_hostname ex_myhost) (25 - 12) 0 [ex_addr4, ex_addr4b] []
       = Some (drop 25 ex_response_pad)
   \<and> drop 12 (take 25 ex_response_pad) = drop 12 ex_query @ [0xAA]
   \<and> take (unat (ex_pktbuf_pad ! 12) + 2 + 4) (drop 12 ex_pktbuf_pad) = drop 12 ex_query
   \<and> drop 12 (take 25 ex_response_pad)
       \<noteq> take (unat (ex_pktbuf_pad ! 12) + 2 + 4) (drop 12 ex_pktbuf_pad)"
proof -
  note ex_pad_response
  moreover have "rr_loop True 30 (llmnr_set_hostname ex_myhost) (25 - 12) 0 [ex_addr4, ex_addr4b] []
       = Some (drop 25 ex_response_pad)"
    by code_simp
  moreover have a: "drop 12 (take 25 ex_response_pad) = drop 12 ex_query @ [0xAA]"
    by (simp add: ex_response_pad_def ex_query_def)
  moreover have b: "take (unat (ex_pktbuf_pad ! 12) + 2 + 4) (drop 12 ex_pktbuf_pad) = drop 12 ex_query"
    by (simp add: ex_pktbuf_pad_def ex_query_def)
  moreover have "drop 12 (take 25 ex_response_pad)
       \<noteq> take (unat (ex_pktbuf_pad ! 12) + 2 + 4) (drop 12 ex_pktbuf_pad)"
    unfolding a b by simp
  ultimately show ?thesis by blast
qed

theorem question_echo_trailing_byte_witness:
  "llmnr_packet_process True 30 (llmnr_set_hostname ex_myhost) (\<lambda>_. [ex_addr4, ex_addr4b]) 1
     ex_pktbuf_pad 25 = Response ex_response_pad
   \<and> length (drop 12 (take 25 ex_response_pad)) = 13
   \<and> length (take (unat (ex_pktbuf_pad ! 12) + 2 + 4) (drop 12 ex_pktbuf_pad)) = 12"
proof -
  have a: "drop 12 (take 25 ex_response_pad) = drop 12 ex_query @ [0xAA]"
    and b: "take (unat (ex_pktbuf_pad ! 12) + 2 + 4) (drop 12 ex_pktbuf_pad) = drop 12 ex_query"
    and c: "llmnr_packet_process True 30 (llmnr_set_hostname ex_myhost)
              (\<lambda>_. [ex_addr4, ex_addr4b]) 1 ex_pktbuf_pad 25 = Response ex_response_pad"
    using question_echo_trailing_byte by blast+
  show ?thesis unfolding a b c by (simp add: ex_query_def)
qed

section \<open>Silent drops of the validator\<close>

text \<open>
  What the validator does, stated on the bytes of the receive buffer: no response when
  the payload is shorter than the 12-byte header, or the QR bit is set, or the opcode is
  not zero, or the TC bit is set, or QDCOUNT is not 1, or ANCOUNT or NSCOUNT is not 0, or
  the length octet of the QNAME is 0, at least the length of the payload after the
  header, or more than 63, or the byte of the buffer after the name bytes is not zero.
  That byte is a byte of the datagram only when the payload is longer than the name.
\<close>

lemma validator_drops_on_buffer:
  assumes "len < 12
      \<or> msg_flags pktbuf AND LLMNR_F_QR \<noteq> 0
      \<or> msg_flags pktbuf AND LLMNR_F_OPCODE \<noteq> 0
      \<or> msg_flags pktbuf AND LLMNR_F_TC \<noteq> 0
      \<or> msg_qdcount pktbuf \<noteq> 1
      \<or> msg_ancount pktbuf \<noteq> 0 \<or> msg_nscount pktbuf \<noteq> 0
      \<or> pktbuf ! 12 = 0 \<or> unat (pktbuf ! 12) \<ge> len - 12 \<or> unat (pktbuf ! 12) > 63
      \<or> pktbuf ! (13 + unat (pktbuf ! 12)) \<noteq> 0"
  shows "(\<forall>r. llmnr_packet_process le ttl hn ifaces ifindex pktbuf len \<noteq> Response r)
         \<and> (length pktbuf = PKTBUF_SIZE \<longrightarrow>
              llmnr_packet_process le ttl hn ifaces ifindex pktbuf len = NoResponse)"
  using process_drop_not_Response [OF assms] process_drop_NoResponse [OF _ assms]
  by blast

text \<open>
  C5. The claim: a datagram in which the byte after the QNAME bytes is not the
  terminating zero octet gets no response. A datagram of 19 bytes that ends with the
  last name byte has no byte after the name; received into the buffer that still holds
  an earlier query of type A, the byte the validator tests is the stale zero octet of
  that query, and a response is sent.
\<close>

theorem missing_zero_octet_answered:
  "length ex_truncated = 13 + unat (ex_truncated ! 12)
   \<and> rd ex_truncated (13 + unat (ex_truncated ! 12)) = None
   \<and> pktbuf_after (ex_query_a @ replicate 2024 0) ex_truncated ! (13 + unat (ex_truncated ! 12)) = 0
   \<and> llmnr_recv True 30 (llmnr_set_hostname ex_myhost) (\<lambda>_. [ex_addr4])
         (ex_query_a @ replicate 2024 0) (Received ex_truncated 1)
       = Response ex_response_truncated"
proof -
  have "length ex_truncated = 13 + unat (ex_truncated ! 12)"
    by (simp add: ex_truncated_def ex_query_def)
  moreover have "rd ex_truncated (13 + unat (ex_truncated ! 12)) = None"
    by (simp add: rd_def ex_truncated_def ex_query_def)
  moreover have "pktbuf_after (ex_query_a @ replicate 2024 0) ex_truncated
                   ! (13 + unat (ex_truncated ! 12)) = 0"
    by code_simp
  moreover have "llmnr_recv True 30 (llmnr_set_hostname ex_myhost) (\<lambda>_. [ex_addr4])
         (ex_query_a @ replicate 2024 0) (Received ex_truncated 1)
       = Response ex_response_truncated"
    by code_simp
  ultimately show ?thesis by blast
qed

section \<open>The scenario of the specification\<close>

text \<open>
  C6, as amended. With the host name "myhost", the query for "MYHOST" of type ANY and
  class IN, and the single IPv4 address 192.0.2.5 on the interface, the response has the
  ID and QDCOUNT of the query, ANCOUNT = 1, the echoed question, and one answer record
  whose NAME is the stored label 0x06 "myhost" 0x00, with TYPE = 1, CLASS = 1, the
  default TTL, RDLENGTH = 4 and RDATA 192, 0, 2, 5.
\<close>

theorem scenario_myhost:
  "llmnr_packet_process le ttl (llmnr_set_hostname ex_myhost) (\<lambda>_. [ex_addr4]) ifindex ex_pktbuf 24
     = Response ([0x12, 0x34, 0x80, 0, 0, 1, 0, 1, 0, 0, 0, 0,
                  6, 0x4D, 0x59, 0x48, 0x4F, 0x53, 0x54, 0, 0, 0xFF, 0, 1,
                  6, 0x6D, 0x79, 0x68, 0x6F, 0x73, 0x74, 0,
                  0, 1, 0, 1] @ be_bytes32 ttl @ [0, 4, 192, 0, 2, 5])"
proof -
  have h: "rds (llmnr_set_hostname ex_myhost) 0 8 = Some [6, 0x6D, 0x79, 0x68, 0x6F, 0x73, 0x74, 0]"
     "rd (llmnr_set_hostname ex_myhost) 0 = Some 6"
    by code_simp+
  have n: "rr_name le (llmnr_set_hostname ex_myhost) 12 0 p
             = Some (p @ [6, 0x6D, 0x79, 0x68, 0x6F, 0x73, 0x74, 0])" for p
    by (simp add: rr_name_def h pkt_put_def)
  show ?thesis
    unfolding process_validated [OF ex_pktbuf_length ex_pktbuf_validated] ex_pktbuf_matches
    by (simp add: llmnr_respond_def ex_pktbuf_def ex_query_def rd_def rds_def Let_def nth_append
        ntohs_load_u16 be16_def LLMNR_QCLASS_IN_def LLMNR_QTYPE_A_def LLMNR_QTYPE_ANY_def
        iface_addr_lookup_def AF_UNSPEC_def AF_INET_def ex_addr4_def pkt_put_def
        hdr_store_response n rr_fixed_eq rr_wire_tail_def hi8_def lo8_def)
qed

theorem scenario_myhost_witness:
  "llmnr_packet_process True 30 (llmnr_set_hostname ex_myhost) (\<lambda>_. [ex_addr4]) 1 ex_pktbuf 24
     = Response ex_response
   \<and> msg_id ex_response = msg_id ex_query \<and> msg_qdcount ex_response = msg_qdcount ex_query
   \<and> msg_ancount ex_response = 1
   \<and> drop 24 ex_response =
       [6, 0x6D, 0x79, 0x68, 0x6F, 0x73, 0x74, 0] @ [0, 1] @ [0, 1] @ [0, 0, 0, 30] @ [0, 4]
         @ [192, 0, 2, 5]"
proof -
  have "llmnr_packet_process True 30 (llmnr_set_hostname ex_myhost) (\<lambda>_. [ex_addr4]) 1
          ex_pktbuf 24 = Response ex_response"
    using scenario_myhost [of True 30 1] by (simp add: ex_response_def be_bytes32_def)
  moreover have "msg_id ex_response = msg_id ex_query"
    "msg_qdcount ex_response = msg_qdcount ex_query" "msg_ancount ex_response = 1"
    by (simp_all add: msg_id_def msg_qdcount_def msg_ancount_def ex_response_def ex_query_def
        be16_def)
  moreover have "drop 24 ex_response =
       [6, 0x6D, 0x79, 0x68, 0x6F, 0x73, 0x74, 0] @ [0, 1] @ [0, 1] @ [0, 0, 0, 30] @ [0, 4]
         @ [192, 0, 2, 5]"
    by (simp add: ex_response_def)
  ultimately show ?thesis by blast
qed

text \<open>
  The claim as stated gives the NAME of the answer record as 0x06 "MYHOST" 0x00, the
  spelling of the query. The code copies the stored label, in the spelling configured.
\<close>

theorem scenario_name_counterexample:
  "llmnr_packet_process True 30 (llmnr_set_hostname ex_myhost) (\<lambda>_. [ex_addr4]) 1 ex_pktbuf 24
     = Response ex_response
   \<and> take 8 (drop 24 ex_response) = [6, 0x6D, 0x79, 0x68, 0x6F, 0x73, 0x74, 0]
   \<and> take 8 (drop 24 ex_response) \<noteq> [6, 0x4D, 0x59, 0x48, 0x4F, 0x53, 0x54, 0]"
proof -
  have "take 8 (drop 24 ex_response) = [6, 0x6D, 0x79, 0x68, 0x6F, 0x73, 0x74, 0]"
    by (simp add: ex_response_def)
  with ex_pktbuf_response show ?thesis by simp
qed

section \<open>The name matcher on validated queries\<close>

text \<open>
  C7. For every configured host name \<open>H\<close> and every validated query, the name matcher
  reports a match exactly when the length octet of the QNAME equals the length octet of
  the stored label and the name bytes are equal after ASCII lower-casing; a query that
  does not match gets no response.
\<close>

theorem name_matcher:
  assumes "length pktbuf = PKTBUF_SIZE" and "query_validated pktbuf len"
  shows "llmnr_name_matches (llmnr_set_hostname H) (drop 12 pktbuf) =
           Some (pktbuf ! 12 = llmnr_set_hostname H ! 0
                 \<and> map tolower (take (unat (pktbuf ! 12)) (drop 13 pktbuf))
                   = map tolower (take (unat (pktbuf ! 12)) (drop 1 (llmnr_set_hostname H))))
         \<and> (llmnr_name_matches (llmnr_set_hostname H) (drop 12 pktbuf) = Some False \<longrightarrow>
              llmnr_packet_process le ttl (llmnr_set_hostname H) ifaces ifindex pktbuf len
                = NoResponse)"
proof -
  have "llmnr_name_matches (llmnr_set_hostname H) (drop 12 pktbuf) = Some False \<longrightarrow>
          llmnr_packet_process le ttl (llmnr_set_hostname H) ifaces ifindex pktbuf len = NoResponse"
    unfolding process_validated [OF assms] by auto
  with name_matches_set_hostname [OF assms, of H] show ?thesis by blast
qed

theorem name_matcher_witness:
  "length ex_pktbuf = PKTBUF_SIZE \<and> query_validated ex_pktbuf 24
   \<and> llmnr_name_matches (llmnr_set_hostname ex_myhost) (drop 12 ex_pktbuf) = Some True"
proof -
  have l: "length ex_pktbuf = PKTBUF_SIZE"
    by (simp add: ex_pktbuf_def ex_query_def PKTBUF_SIZE_def)
  have v: "query_validated ex_pktbuf 24"
    by (simp add: query_validated_def ex_pktbuf_def ex_query_def msg_flags_def msg_qdcount_def
        msg_ancount_def msg_nscount_def be16_def nth_append
        LLMNR_F_QR_def LLMNR_F_OPCODE_def LLMNR_F_TC_def)
  have e: "ex_pktbuf ! 12 = llmnr_set_hostname ex_myhost ! 0
           \<and> map tolower (take (unat (ex_pktbuf ! 12)) (drop 13 ex_pktbuf))
               = map tolower (take (unat (ex_pktbuf ! 12)) (drop 1 (llmnr_set_hostname ex_myhost)))"
    by (simp add: ex_pktbuf_def ex_query_def ex_myhost_def llmnr_set_hostname_def strlen_def
        strncpy_def tolower_def nth_append LLMNR_LABEL_MAX_SIZE_def)
  have m: "llmnr_name_matches (llmnr_set_hostname ex_myhost) (drop 12 ex_pktbuf) = Some True"
    unfolding conjunct1 [OF name_matcher [OF l v, of ex_myhost True 30 "\<lambda>_. [ex_addr4]" 1]]
    using e by blast
  from l v m show ?thesis by blast
qed

section \<open>The response header\<close>

text \<open>
  C8. In every response that is sent, the ID field is the ID of the query, the FLAGS
  field is exactly the QR bit, QDCOUNT is the QDCOUNT of the query, and NSCOUNT and
  ARCOUNT are 0.
\<close>

theorem response_header:
  assumes "llmnr_packet_process le ttl hn ifaces ifindex pktbuf len = Response r"
  shows "12 \<le> length r \<and> msg_id r = msg_id pktbuf \<and> msg_flags r = LLMNR_F_QR
         \<and> msg_qdcount r = msg_qdcount pktbuf \<and> msg_nscount r = 0 \<and> msg_arcount r = 0"
  using assms
  by (rule process_Response_layout)
    (simp add: msg_id_def msg_flags_def msg_qdcount_def msg_nscount_def msg_arcount_def
      LLMNR_F_QR_def be16_def)

theorem response_header_witness:
  "llmnr_packet_process True 30 (llmnr_set_hostname ex_myhost) (\<lambda>_. [ex_addr4]) 1 ex_query 24
     = Response ex_response
   \<and> 12 \<le> length ex_response \<and> msg_id ex_response = msg_id ex_query
   \<and> msg_flags ex_response = LLMNR_F_QR \<and> msg_qdcount ex_response = msg_qdcount ex_query
   \<and> msg_nscount ex_response = 0 \<and> msg_arcount ex_response = 0"
  using response_header [OF ex_query_response] ex_query_response by simp

section \<open>A question cut short\<close>

text \<open>
  C9. The claim: a validated, matching query with fewer than 4 payload bytes after the
  zero octet of the QNAME gets no response. A datagram of 19 bytes that ends with the
  name bytes, received into the buffer that still holds the previous query, passes the
  validator and the name matcher (the zero octet it reads is a stale byte), the
  subtraction in the length check wraps around, and a response is sent.
\<close>

theorem truncated_question_answered:
  "query_validated (pktbuf_after ex_pktbuf ex_truncated) (length ex_truncated)
   \<and> llmnr_name_matches (llmnr_set_hostname ex_myhost)
         (drop 12 (pktbuf_after ex_pktbuf ex_truncated)) = Some True
   \<and> length ex_truncated - (12 + unat (ex_truncated ! 12) + 1) = 0
   \<and> llmnr_recv True 30 (llmnr_set_hostname ex_myhost) (\<lambda>_. [ex_addr4]) ex_pktbuf
         (Received ex_truncated 1) = Response ex_response_truncated"
proof -
  have "query_validated (pktbuf_after ex_pktbuf ex_truncated) (length ex_truncated)"
    by code_simp
  moreover have "llmnr_name_matches (llmnr_set_hostname ex_myhost)
         (drop 12 (pktbuf_after ex_pktbuf ex_truncated)) = Some True"
    by code_simp
  moreover have "length ex_truncated - (12 + unat (ex_truncated ! 12) + 1) = 0"
    by (simp add: ex_truncated_def ex_query_def)
  moreover have "llmnr_recv True 30 (llmnr_set_hostname ex_myhost) (\<lambda>_. [ex_addr4]) ex_pktbuf
         (Received ex_truncated 1) = Response ex_response_truncated"
    by code_simp
  ultimately show ?thesis by blast
qed

section \<open>Reads beyond the received payload\<close>

text \<open>
  C10. The claim: every byte examined lies within the received payload, and the
  remaining-length computation never wraps. For the datagram of 19 bytes that ends with
  the name bytes, the computation yields \<open>2\<^sup>6\<^sup>4 - 1\<close>, and the outcome depends on the
  five bytes of the buffer after the payload: with one content a response is sent, with
  another none.
\<close>

theorem stale_bytes_decide:
  "length ex_truncated = 12 + unat (ex_truncated ! 12) + 1
   \<and> (of_nat (length ex_truncated - 12) :: size_t) - ucast (ex_truncated ! 12) - 2
       = 0xFFFFFFFFFFFFFFFF
   \<and> llmnr_packet_process True 30 (llmnr_set_hostname ex_myhost) (\<lambda>_. [ex_addr4]) 1
         (ex_truncated @ [0, 0, 1, 0, 1] @ replicate 2024 0) (length ex_truncated)
       = Response ex_response_truncated
   \<and> llmnr_packet_process True 30 (llmnr_set_hostname ex_myhost) (\<lambda>_. [ex_addr4]) 1
         (ex_truncated @ [0, 0, 1, 0, 2] @ replicate 2024 0) (length ex_truncated)
       = NoResponse"
proof -
  have "length ex_truncated = 12 + unat (ex_truncated ! 12) + 1"
    by (simp add: ex_truncated_def ex_query_def)
  moreover have "(of_nat (length ex_truncated - 12) :: size_t) - ucast (ex_truncated ! 12) - 2
       = 0xFFFFFFFFFFFFFFFF"
    by (simp add: ex_truncated_def ex_query_def)
  moreover have "llmnr_packet_process True 30 (llmnr_set_hostname ex_myhost) (\<lambda>_. [ex_addr4]) 1
         (ex_truncated @ [0, 0, 1, 0, 1] @ replicate 2024 0) (length ex_truncated)
       = Response ex_response_truncated"
    by code_simp
  moreover have "llmnr_packet_process True 30 (llmnr_set_hostname ex_myhost) (\<lambda>_. [ex_addr4]) 1
         (ex_truncated @ [0, 0, 1, 0, 2] @ replicate 2024 0) (length ex_truncated)
       = NoResponse"
    by code_simp
  ultimately show ?thesis by blast
qed

theorem stale_bytes_decide_witness:
  "take (length ex_truncated) (ex_truncated @ [0, 0, 1, 0, 1] @ replicate 2024 0)
     = take (length ex_truncated) (ex_truncated @ [0, 0, 1, 0, 2] @ replicate 2024 0)
   \<and> llmnr_packet_process True 30 (llmnr_set_hostname ex_myhost) (\<lambda>_. [ex_addr4]) 1
         (ex_truncated @ [0, 0, 1, 0, 1] @ replicate 2024 0) (length ex_truncated)
       \<noteq> llmnr_packet_process True 30 (llmnr_set_hostname ex_myhost) (\<lambda>_. [ex_addr4]) 1
           (ex_truncated @ [0, 0, 1, 0, 2] @ replicate 2024 0) (length ex_truncated)"
proof -
  have r1: "llmnr_packet_process True 30 (llmnr_set_hostname ex_myhost) (\<lambda>_. [ex_addr4]) 1
         (ex_truncated @ [0, 0, 1, 0, 1] @ replicate 2024 0) (length ex_truncated)
       = Response ex_response_truncated"
    and r2: "llmnr_packet_process True 30 (llmnr_set_hostname ex_myhost) (\<lambda>_. [ex_addr4]) 1
         (ex_truncated @ [0, 0, 1, 0, 2] @ replicate 2024 0) (length ex_truncated)
       = NoResponse"
    using stale_bytes_decide by blast+
  show ?thesis unfolding r1 r2 by simp
qed

end
